theory Spec2Isabelle
  imports Complex_Main "HOL-Library.AList"
begin

section \<open>Numbers, strings and keyed objects\<close>

text \<open>
  The engine computes with JavaScript numbers. They are modelled as \<open>real\<close>: every value is
  finite, so \<open>Number.isFinite\<close> holds of every modelled number, \<open>Number(v) || 0\<close> is \<open>v\<close>,
  and the properties below are exact where the program holds them up to rounding.
  Unix timestamps and the small integer codes of the database (direction, strategy id) are \<open>int\<close>.

  A JavaScript object used as a dictionary with symbol keys (\<open>Record<string, T>\<close>) is an
  association list in insertion order: assignment to a present key keeps its place, assignment
  to an absent key appends (\<open>AList.update\<close>), \<open>delete\<close> removes the entry
  (\<open>AList.delete\<close>), \<open>Object.entries\<close> is the list itself.
\<close>

definition upperChar :: "char \<Rightarrow> char" where
  "upperChar c =
     (case map_of (zip ''abcdefghijklmnopqrstuvwxyz'' ''ABCDEFGHIJKLMNOPQRSTUVWXYZ'') c of
        None \<Rightarrow> c | Some u \<Rightarrow> u)"

text \<open>\<open>String.prototype.toUpperCase\<close> on the ASCII range.\<close>

definition toUpperCase :: "string \<Rightarrow> string" where
  "toUpperCase s = map upperChar s"

text \<open>\<open>obj[k] ?? d\<close>: the value stored under \<open>k\<close>, or \<open>d\<close> when the key is absent.\<close>

definition getOr :: "('k \<times> 'v) list \<Rightarrow> 'k \<Rightarrow> 'v \<Rightarrow> 'v" where
  "getOr obj k d = (case map_of obj k of None \<Rightarrow> d | Some v \<Rightarrow> v)"

section \<open>Supported assets (prices.ts)\<close>

definition SUPPORTED_ASSETS :: "(string \<times> string) list" where
  "SUPPORTED_ASSETS =
     [(''BTC'', ''bitcoin''), (''ETH'', ''ethereum''), (''SOL'', ''solana''),
      (''XRP'', ''ripple''), (''KAS'', ''kaspa''), (''GOLD'', ''pax-gold''),
      (''SILVER'', ''kinesis-silver''), (''SPX'', ''backed-cspx-core-s-p-500'')]"

section \<open>Rebalance on a signal (segments.ts)\<close>

record PosMeta =
  direction :: int
  leverage :: real
  isUsd :: bool

type_synonym buckets = "(string \<times> real) list"
type_synonym metas = "(string \<times> PosMeta) list"

definition clampPct :: "real \<Rightarrow> real" where
  "clampPct weightRaw = real_of_int (max 0 (min 100 (\<lfloor>weightRaw\<rfloor>))) / 100"

definition isUsdAsset :: "string \<Rightarrow> bool" where
  "isUsdAsset asset \<longleftrightarrow> toUpperCase asset = ''USD''"

definition isSupportedAsset :: "string \<Rightarrow> bool" where
  "isSupportedAsset asset =
     (let sym = toUpperCase asset in isUsdAsset sym \<or> sym \<in> set (map fst SUPPORTED_ASSETS))"

definition sumBuckets :: "buckets \<Rightarrow> real" where
  "sumBuckets b = foldl (\<lambda>s v. s + v) 0 (map snd b)"

text \<open>The direction and leverage a signal gives a bucket (lines 249-250 of segments.ts).\<close>

definition signalDir :: "bool \<Rightarrow> int \<Rightarrow> int" where
  "signalDir usd dirRaw = (if usd then 0 else if dirRaw = 1 then - 1 else 1)"

definition signalLev :: "bool \<Rightarrow> real \<Rightarrow> real" where
  "signalLev usd levRaw = (if usd then 1 else real_of_int (max 1 (min 5 \<lfloor>levRaw\<rfloor>)))"

definition hasNonUsdExposure :: "buckets \<Rightarrow> bool" where
  "hasNonUsdExposure b = list_ex (\<lambda>(sym, v). \<not> isUsdAsset sym \<and> v > 0) b"

definition isBrandNewSeed :: "buckets \<Rightarrow> bool" where
  "isBrandNewSeed b \<longleftrightarrow> length b = 1 \<and> getOr b ''USD'' 0 = 1 \<and> \<not> hasNonUsdExposure b"

definition cashMeta :: PosMeta where
  "cashMeta = \<lparr>direction = 0, leverage = 1, isUsd = True\<rparr>"

text \<open>The loop of lines 286-289: every bucket but the signalled one is multiplied by \<open>k\<close>.\<close>

definition scaleOthers :: "string \<Rightarrow> real \<Rightarrow> buckets \<Rightarrow> buckets" where
  "scaleOthers asset k b = map (\<lambda>(a, v). if a = asset then (a, v) else (a, v * k)) b"

text \<open>
  \<open>applySignalTargetPct\<close> mutates \<open>buckets\<close> and \<open>meta\<close> in place; the model returns both.
\<close>

definition applySignalTargetPct ::
  "buckets \<Rightarrow> metas \<Rightarrow> string \<Rightarrow> int \<Rightarrow> real \<Rightarrow> real \<Rightarrow> buckets \<times> metas" where
  "applySignalTargetPct b meta assetRaw dirRaw levRaw weight_raw =
     (let asset = toUpperCase assetRaw in
      if \<not> isSupportedAsset asset then (b, meta)
      else
        let usd = isUsdAsset asset;
            meta1 = AList.update asset
              \<lparr>direction = signalDir usd dirRaw, leverage = signalLev usd levRaw, isUsd = usd\<rparr> meta;
            total = sumBuckets b
        in
        if total \<le> 0 \<or> isBrandNewSeed b
        then (filter (\<lambda>(k, v). k = asset) (AList.update asset 1 b), meta1)
        else
          let targetPct = clampPct weight_raw;
              current = getOr b asset 0;
              otherTotal = total - current;
              desired = targetPct * total;
              desiredOtherTotal = total - desired;
              (b2, meta2) =
                (if otherTotal > 0
                 then (scaleOthers asset (desiredOtherTotal / otherTotal) b, meta1)
                 else if desiredOtherTotal > 0
                 then (AList.update ''USD'' (getOr b ''USD'' 0 + desiredOtherTotal) b,
                       AList.update ''USD'' cashMeta meta1)
                 else (b, meta1))
          in
          if desired \<le> 0 then (AList.delete asset b2, AList.delete asset meta2)
          else (AList.update asset desired b2, meta2))"


subsection \<open>Basic facts\<close>

lemma upperChar_idem: "upperChar (upperChar c) = upperChar c"
  by (simp add: upperChar_def)

lemma toUpperCase_idem: "toUpperCase (toUpperCase s) = toUpperCase s"
  by (simp add: toUpperCase_def upperChar_idem)

lemma isUsdAsset_upper: "isUsdAsset (toUpperCase s) = isUsdAsset s"
  by (simp add: isUsdAsset_def toUpperCase_idem)

lemma isSupportedAsset_upper: "isSupportedAsset (toUpperCase s) = isSupportedAsset s"
  by (simp add: isSupportedAsset_def toUpperCase_idem)

lemma toUpperCase_USD: "toUpperCase ''USD'' = ''USD''"
  by (simp add: toUpperCase_def upperChar_def)

lemma isUsdAsset_iff: "isUsdAsset (toUpperCase s) \<longleftrightarrow> toUpperCase s = ''USD''"
  by (simp add: isUsdAsset_def toUpperCase_idem)

lemma foldl_plus_shift: "foldl (\<lambda>s v. s + v) (a::real) xs = a + sum_list xs"
  by (induction xs arbitrary: a) simp_all

lemma sumBuckets_sum_list: "sumBuckets b = sum_list (map snd b)"
  by (simp add: sumBuckets_def foldl_plus_shift)

lemma sumBuckets_Nil: "sumBuckets [] = 0"
  by (simp add: sumBuckets_sum_list)

lemma sumBuckets_Cons: "sumBuckets ((k, v) # b) = v + sumBuckets b"
  by (simp add: sumBuckets_sum_list)

lemma getOr_Nil: "getOr [] k d = d"
  by (simp add: getOr_def)

lemma getOr_Cons: "getOr ((k', v) # b) k d = (if k = k' then v else getOr b k d)"
  by (simp add: getOr_def)

lemma sumBuckets_update: "sumBuckets (AList.update k v b) = sumBuckets b - getOr b k 0 + v"
  by (induction b) (auto simp: sumBuckets_Nil sumBuckets_Cons getOr_Nil getOr_Cons)

lemma getOr_absent: "k \<notin> fst ` set b \<Longrightarrow> getOr b k d = d"
  by (induction b) (auto simp: getOr_Nil getOr_Cons)

lemma sumBuckets_delete:
  "distinct (map fst b) \<Longrightarrow> sumBuckets (AList.delete k b) = sumBuckets b - getOr b k 0"
proof (induction b)
  case Nil
  show ?case by (simp add: sumBuckets_Nil getOr_Nil)
next
  case (Cons e b)
  obtain k' v where e: "e = (k', v)" by (cases e)
  show ?case
  proof (cases "k = k'")
    case True
    with Cons.prems e have "k \<notin> fst ` set b" by auto
    then have "AList.delete k b = b" by simp
    with True e show ?thesis by (simp add: sumBuckets_Cons getOr_Cons)
  next
    case False
    with Cons e show ?thesis by (simp add: sumBuckets_Cons getOr_Cons)
  qed
qed


lemma sumBuckets_scaleOthers:
  "distinct (map fst b) \<Longrightarrow>
   sumBuckets (scaleOthers asset k b) = getOr b asset 0 + k * (sumBuckets b - getOr b asset 0)"
proof (induction b)
  case Nil
  show ?case by (simp add: scaleOthers_def sumBuckets_Nil getOr_Nil)
next
  case (Cons e b)
  obtain k' v where e: "e = (k', v)" by (cases e)
  have IH: "sumBuckets (scaleOthers asset k b) = getOr b asset 0 + k * (sumBuckets b - getOr b asset 0)"
    using Cons by simp
  show ?case
  proof (cases "k' = asset")
    case True
    with Cons.prems e have "asset \<notin> fst ` set b" by auto
    then have g: "getOr b asset 0 = 0" by (rule getOr_absent)
    have "scaleOthers asset k (e # b) = (k', v) # scaleOthers asset k b"
      using True e by (simp add: scaleOthers_def)
    then show ?thesis using IH g True e by (simp add: sumBuckets_Cons getOr_Cons)
  next
    case False
    have "scaleOthers asset k (e # b) = (k', v * k) # scaleOthers asset k b"
      using False e by (simp add: scaleOthers_def)
    then show ?thesis using IH False e by (simp add: sumBuckets_Cons getOr_Cons algebra_simps)
  qed
qed

lemma getOr_scaleOthers_same: "getOr (scaleOthers asset k b) asset 0 = getOr b asset 0"
  by (induction b) (auto simp: scaleOthers_def getOr_Nil getOr_Cons)

lemma keys_scaleOthers: "map fst (scaleOthers asset k b) = map fst b"
  by (induction b) (auto simp: scaleOthers_def)

lemma getOr_nonneg: "\<forall>v \<in> snd ` set b. 0 \<le> v \<Longrightarrow> 0 \<le> getOr b k (0::real)"
  by (induction b) (auto simp: getOr_Nil getOr_Cons)

lemma others_nonneg:
  "distinct (map fst b) \<Longrightarrow> \<forall>v \<in> snd ` set b. 0 \<le> v \<Longrightarrow> getOr b k 0 \<le> sumBuckets b"
proof (induction b)
  case Nil
  show ?case by (simp add: sumBuckets_Nil getOr_Nil)
next
  case (Cons e b)
  obtain k' v where e: "e = (k', v)" by (cases e)
  have nn: "0 \<le> sumBuckets b" using Cons.prems(2) by (auto intro!: sum_list_nonneg simp: sumBuckets_sum_list)
  show ?case
  proof (cases "k = k'")
    case True
    then show ?thesis using e nn by (simp add: sumBuckets_Cons getOr_Cons)
  next
    case False
    have "getOr b k 0 \<le> sumBuckets b" using Cons by simp
    moreover have "0 \<le> v" using Cons.prems(2) e by simp
    ultimately show ?thesis using False e by (simp add: sumBuckets_Cons getOr_Cons)
  qed
qed

lemma clampPct_range: "0 \<le> clampPct w \<and> clampPct w \<le> 1"
  by (simp add: clampPct_def)

lemma seed_result:
  "distinct (map fst b) \<Longrightarrow> filter (\<lambda>(k, v). k = asset) (AList.update asset (1::real) b) = [(asset, 1)]"
proof (induction b)
  case Nil
  show ?case by simp
next
  case (Cons e b)
  obtain k' v where e: "e = (k', v)" by (cases e)
  show ?case
  proof (cases "asset = k'")
    case True
    with Cons.prems e have "asset \<notin> fst ` set b" by auto
    then have "filter (\<lambda>(k, v). k = asset) b = []" by (force simp: filter_empty_conv)
    with True e show ?thesis by simp
  next
    case False
    with Cons e show ?thesis by simp
  qed
qed

lemma map_of_scaleOthers:
  "map_of (scaleOthers asset k b) a =
     (if a = asset then map_of b a else map_option (\<lambda>v. v * k) (map_of b a))"
  by (induction b) (auto simp: scaleOthers_def)

lemma applySignalTargetPct_unsupported:
  "\<not> isSupportedAsset assetRaw \<Longrightarrow> applySignalTargetPct b meta assetRaw d l w = (b, meta)"
  by (simp add: applySignalTargetPct_def Let_def isSupportedAsset_upper)

lemma applySignalTargetPct_first:
  assumes "isSupportedAsset assetRaw" and "sumBuckets b \<le> 0 \<or> isBrandNewSeed b"
  shows "fst (applySignalTargetPct b meta assetRaw d l w) =
           filter (\<lambda>(k, v). k = toUpperCase assetRaw) (AList.update (toUpperCase assetRaw) 1 b)"
  using assms by (auto simp: applySignalTargetPct_def Let_def isSupportedAsset_upper)

text \<open>
  The buckets that the branch after the first-position test leaves (lines 278-305), as a
  function of the holdings, the upper-cased asset and the raw weight.
\<close>

definition rebalanced :: "buckets \<Rightarrow> string \<Rightarrow> real \<Rightarrow> buckets" where
  "rebalanced b asset w =
     (let total = sumBuckets b;
          current = getOr b asset 0;
          otherTotal = total - current;
          desired = clampPct w * total;
          desiredOtherTotal = total - desired;
          b2 = (if otherTotal > 0 then scaleOthers asset (desiredOtherTotal / otherTotal) b
                else if desiredOtherTotal > 0
                then AList.update ''USD'' (getOr b ''USD'' 0 + desiredOtherTotal) b
                else b)
      in if desired \<le> 0 then AList.delete asset b2 else AList.update asset desired b2)"

lemma applySignalTargetPct_later:
  assumes "isSupportedAsset assetRaw" and "0 < sumBuckets b" and "\<not> isBrandNewSeed b"
  shows "fst (applySignalTargetPct b meta assetRaw d l w) = rebalanced b (toUpperCase assetRaw) w"
  using assms
  by (simp add: applySignalTargetPct_def rebalanced_def Let_def isSupportedAsset_upper
      split: prod.splits if_splits)

lemma rebalanced_closure:
  assumes dist: "distinct (map fst b)" and nonneg: "\<forall>v \<in> snd ` set b. 0 \<le> v"
    and pos: "0 < sumBuckets b"
    and nousd: "asset \<noteq> ''USD'' \<or> getOr b asset 0 < sumBuckets b \<or> 1 \<le> clampPct w"
  shows "sumBuckets (rebalanced b asset w) = sumBuckets b"
proof -
  define T where "T = sumBuckets b"
  define c where "c = getOr b asset 0"
  define p where "p = clampPct w"
  have p01: "0 \<le> p" "p \<le> 1" using clampPct_range[of w] by (simp_all add: p_def)
  have cT: "c \<le> T" unfolding c_def T_def using dist nonneg by (rule others_nonneg)
  have Tpos: "0 < T" using pos by (simp add: T_def)
  show ?thesis
  proof (cases "T - c > 0")
    case True
    have sc: "sumBuckets (scaleOthers asset ((T - p * T) / (T - c)) b) = c + (T - p * T)"
      using True sumBuckets_scaleOthers[OF dist, of asset "(T - p * T) / (T - c)"]
      by (simp add: T_def c_def)
    have dk: "distinct (map fst (scaleOthers asset ((T - p * T) / (T - c)) b))"
      using dist by (simp add: keys_scaleOthers)
    show ?thesis
    proof (cases "p * T \<le> 0")
      case le: True
      then have "p = 0" using Tpos p01 by (simp add: mult_le_0_iff)
      then show ?thesis
        using True sc dk
        by (simp add: rebalanced_def Let_def T_def[symmetric] c_def[symmetric] p_def[symmetric]
            sumBuckets_delete getOr_scaleOthers_same)
    next
      case False
      then show ?thesis
        using True sc
        by (simp add: rebalanced_def Let_def T_def[symmetric] c_def[symmetric] p_def[symmetric]
            sumBuckets_update getOr_scaleOthers_same)
    qed
  next
    case False
    then have ceq: "c = T" using cT by simp
    show ?thesis
    proof (cases "T - p * T > 0")
      case dpos: True
      then have "p < 1" using Tpos by (auto simp: algebra_simps)
      then have ne: "asset \<noteq> ''USD''" using nousd ceq by (auto simp: p_def c_def T_def)
      have g: "getOr (AList.update ''USD'' u b) asset 0 = c" for u
        using ne by (simp add: getOr_def c_def update_conv')
      have dk: "distinct (map fst (AList.update ''USD'' u b))" for u
        using dist by (simp add: distinct_update)
      have usd0: "getOr b ''USD'' 0 = 0"
      proof -
        have "sumBuckets (AList.delete asset b) = 0"
          using dist ceq by (simp add: sumBuckets_delete T_def c_def)
        moreover have "\<forall>v \<in> snd ` set (AList.delete asset b). 0 \<le> v"
          using nonneg by (auto simp: AList.delete_eq)
        moreover have "distinct (map fst (AList.delete asset b))"
          using dist by (simp add: distinct_delete)
        ultimately have "getOr (AList.delete asset b) ''USD'' 0 \<le> 0"
          using others_nonneg[of "AList.delete asset b" "''USD''"] by simp
        moreover have "getOr (AList.delete asset b) ''USD'' 0 = getOr b ''USD'' 0"
          using ne by (simp add: getOr_def)
        moreover have "0 \<le> getOr b ''USD'' 0" using nonneg by (rule getOr_nonneg)
        ultimately show ?thesis by simp
      qed
      show ?thesis
      proof (cases "p * T \<le> 0")
        case le: True
        then have "p = 0" using Tpos p01 by (simp add: mult_le_0_iff)
        then show ?thesis
          using False dpos ceq usd0 g dk
          by (simp add: rebalanced_def Let_def T_def[symmetric] c_def[symmetric] p_def[symmetric]
              sumBuckets_delete sumBuckets_update)
      next
        case nle: False
        then show ?thesis
          using False dpos ceq usd0 g
          by (simp add: rebalanced_def Let_def T_def[symmetric] c_def[symmetric] p_def[symmetric]
              sumBuckets_update)
      qed
    next
      case dnpos: False
      then have "p = 1" using Tpos p01 by (auto simp: algebra_simps)
      then show ?thesis
        using False dnpos ceq Tpos
        by (simp add: rebalanced_def Let_def T_def[symmetric] c_def[symmetric] p_def[symmetric]
            sumBuckets_update)
    qed
  qed
qed


text \<open>
  The target percentage of a signal as the text of the rebalance rule names it:
  \<open>p = clamp(floor(weight), 0, 100)\<close>, so that \<open>clampPct w = p / 100\<close>.
\<close>

definition targetPercent :: "real \<Rightarrow> real" where
  "targetPercent w = real_of_int (max 0 (min 100 \<lfloor>w\<rfloor>))"

text \<open>
  The rebalance rule in the words of the specification, on holdings as a finite map and
  bucket by bucket: with \<open>current\<close> the value of the asset (0 if absent),
  \<open>other = T - current\<close>, \<open>desired = p/100 * T\<close> and \<open>desiredOther = T - desired\<close>,
  the asset's bucket is \<open>desired\<close> (deleted when \<open>desired \<le> 0\<close>), every other bucket is
  scaled by \<open>desiredOther / other\<close> when \<open>other > 0\<close>, and otherwise the USD bucket takes
  the shortfall \<open>desiredOther\<close> when that is positive.
\<close>

definition rebalanceSpec :: "(string \<rightharpoonup> real) \<Rightarrow> real \<Rightarrow> string \<Rightarrow> real \<Rightarrow> (string \<rightharpoonup> real)" where
  "rebalanceSpec h T asset p a =
     (let current = (case h asset of None \<Rightarrow> 0 | Some v \<Rightarrow> v);
          other = T - current;
          desired = p / 100 * T;
          desiredOther = T - desired
      in if a = asset then (if desired \<le> 0 then None else Some desired)
         else if other > 0 then map_option (\<lambda>v. v * (desiredOther / other)) (h a)
         else if desiredOther > 0 \<and> a = ''USD''
         then Some ((case h ''USD'' of None \<Rightarrow> 0 | Some v \<Rightarrow> v) + desiredOther)
         else h a)"

lemma clampPct_targetPercent: "clampPct w = targetPercent w / 100"
  by (simp add: clampPct_def targetPercent_def)

lemma map_of_rebalanced:
  assumes "asset \<noteq> ''USD'' \<or> getOr b asset 0 < sumBuckets b \<or> 100 \<le> targetPercent w"
  shows "map_of (rebalanced b asset w) = rebalanceSpec (map_of b) (sumBuckets b) asset (targetPercent w)"
proof
  fix a
  show "map_of (rebalanced b asset w) a = rebalanceSpec (map_of b) (sumBuckets b) asset (targetPercent w) a"
    using assms
    by (auto simp: rebalanced_def rebalanceSpec_def Let_def clampPct_targetPercent getOr_def
        update_conv' delete_conv' map_of_scaleOthers)
qed


subsection \<open>Ingestion of the direction (signals.ts)\<close>

text \<open>
  \<open>syncSignals\<close>, lines 218-221: the direction stored with a signal, from the raw value of
  the contract's enum.
\<close>

definition ingestDirection :: "int \<Rightarrow> int" where
  "ingestDirection targetRaw = (if targetRaw = 1 then 1 else if targetRaw = 2 then 1 else 0)"

subsection \<open>Allocation closure\<close>

lemma applySignalTargetPct_first_sum:
  assumes "isSupportedAsset assetRaw" and "distinct (map fst b)"
    and "sumBuckets b \<le> 0 \<or> isBrandNewSeed b"
  shows "sumBuckets (fst (applySignalTargetPct b meta assetRaw d l w)) = 1"
  using assms
  by (simp add: applySignalTargetPct_first seed_result sumBuckets_Cons sumBuckets_Nil)

text \<open>
  Where the closure holds: on holdings with distinct keys, non-negative buckets and a positive
  total that are not the seed, a signal for a supported asset keeps the sum of the buckets,
  unless the signal names USD below 100 percent while USD holds the whole equity.
\<close>

lemma applySignalTargetPct_closure_unless_usd_only:
  assumes "isSupportedAsset assetRaw" and "distinct (map fst b)"
    and "\<forall>v \<in> snd ` set b. 0 \<le> v" and "0 < sumBuckets b" and "\<not> isBrandNewSeed b"
    and "toUpperCase assetRaw \<noteq> ''USD'' \<or> getOr b ''USD'' 0 < sumBuckets b \<or> 1 \<le> clampPct w"
  shows "sumBuckets (fst (applySignalTargetPct b meta assetRaw d l w)) = sumBuckets b"
proof -
  have "toUpperCase assetRaw \<noteq> ''USD'' \<or> getOr b (toUpperCase assetRaw) 0 < sumBuckets b
          \<or> 1 \<le> clampPct w"
    using assms(6) by auto
  then have "sumBuckets (rebalanced b (toUpperCase assetRaw) w) = sumBuckets b"
    using assms(2,3,4) by (intro rebalanced_closure)
  then show ?thesis
    using assms(1,4,5) by (simp add: applySignalTargetPct_later)
qed

text \<open>
  Claim C1 (allocation closure). A signal for a supported asset on holdings with positive total
  that are not the first position should leave the sum of the buckets unchanged. The program
  breaks this when the signalled asset is USD and USD already holds the whole equity: the
  shortfall added to the USD bucket in line 293 is overwritten by \<open>buckets[asset] = desired\<close>
  in line 305. On \<open>{BTC: 0, USD: 1}\<close> a signal \<open>USD, weight 40\<close> leaves \<open>{BTC: 0, USD: 0.4}\<close>,
  and on \<open>{USD: 2}\<close> a signal \<open>USD, weight 0\<close> leaves no bucket at all.
\<close>

theorem applySignalTargetPct_usd_only_loses_equity:
  "isSupportedAsset ''USD''
   \<and> \<not> isBrandNewSeed [(''BTC'', 0), (''USD'', 1)]
   \<and> sumBuckets [(''BTC'', 0), (''USD'', 1)] = 1
   \<and> fst (applySignalTargetPct [(''BTC'', 0), (''USD'', 1)] [] ''USD'' 0 1 40)
       = [(''BTC'', 0), (''USD'', 2 / 5)]
   \<and> sumBuckets (fst (applySignalTargetPct [(''BTC'', 0), (''USD'', 1)] [] ''USD'' 0 1 40)) = 2 / 5
   \<and> \<not> isBrandNewSeed [(''USD'', 2)]
   \<and> fst (applySignalTargetPct [(''USD'', 2)] [] ''USD'' 0 1 0) = []"
proof -
  have up: "toUpperCase ''USD'' = ''USD''" "toUpperCase ''BTC'' = ''BTC''"
    by (simp_all add: toUpperCase_def upperChar_def)
  have sup: "isSupportedAsset ''USD''"
    by (simp add: isSupportedAsset_def isUsdAsset_def up)
  have seed1: "\<not> isBrandNewSeed [(''BTC'', 0), (''USD'', 1)]"
    by (simp add: isBrandNewSeed_def)
  have seed2: "\<not> isBrandNewSeed [(''USD'', 2)]"
    by (simp add: isBrandNewSeed_def getOr_def)
  have s1: "sumBuckets [(''BTC'', 0), (''USD'', 1)] = 1"
    by (simp add: sumBuckets_def)
  have s2: "sumBuckets [(''USD'', 2)] = 2"
    by (simp add: sumBuckets_def)
  have c40: "clampPct 40 = 2 / 5" and c0: "clampPct 0 = 0"
    by (simp_all add: clampPct_def)
  have r1: "rebalanced [(''BTC'', 0), (''USD'', 1)] ''USD'' 40 = [(''BTC'', 0), (''USD'', 2 / 5)]"
    by (simp add: rebalanced_def Let_def s1 c40 getOr_def)
  have r2: "rebalanced [(''USD'', 2)] ''USD'' 0 = []"
    by (simp add: rebalanced_def Let_def s2 c0 getOr_def)
  have a1: "fst (applySignalTargetPct [(''BTC'', 0), (''USD'', 1)] [] ''USD'' 0 1 40)
              = [(''BTC'', 0), (''USD'', 2 / 5)]"
    using sup seed1 s1 r1 by (simp add: applySignalTargetPct_later up)
  have a2: "fst (applySignalTargetPct [(''USD'', 2)] [] ''USD'' 0 1 0) = []"
    using sup seed2 s2 r2 by (simp add: applySignalTargetPct_later up)
  show ?thesis
    using sup seed1 seed2 s1 a1 a2 by (simp add: sumBuckets_def)
qed

subsection \<open>The rebalance rule\<close>

text \<open>
  Claim C2 as stated fails: holdings whose total is not positive are treated like the first
  position although they are not the seeded cash bucket. On \<open>{BTC: 0}\<close> the signal
  \<open>ETH, weight 40\<close> gives \<open>{ETH: 1}\<close>, where the rule for later signals (\<open>T = 0\<close>, so
  \<open>desired = 0\<close>) deletes the ETH bucket.
\<close>

theorem applySignalTargetPct_zero_total_counterexample:
  "\<not> isBrandNewSeed [(''BTC'', 0)]
   \<and> sumBuckets [(''BTC'', 0)] = 0
   \<and> fst (applySignalTargetPct [(''BTC'', 0)] [] ''ETH'' 0 2 40) = [(''ETH'', 1)]
   \<and> rebalanceSpec (map_of [(''BTC'', 0)]) (sumBuckets [(''BTC'', 0)]) ''ETH'' (targetPercent 40) ''ETH''
       = None"
proof -
  have up: "toUpperCase ''ETH'' = ''ETH''"
    by (simp add: toUpperCase_def upperChar_def)
  have sup: "isSupportedAsset ''ETH''"
    by (simp add: isSupportedAsset_def isUsdAsset_def SUPPORTED_ASSETS_def up)
  have s: "sumBuckets [(''BTC'', 0)] = 0"
    by (simp add: sumBuckets_def)
  have "fst (applySignalTargetPct [(''BTC'', 0)] [] ''ETH'' 0 2 40) = [(''ETH'', 1)]"
    using sup s by (simp add: applySignalTargetPct_first up)
  moreover have "\<not> isBrandNewSeed [(''BTC'', 0)]"
    by (simp add: isBrandNewSeed_def getOr_def)
  ultimately show ?thesis
    using s by (simp add: rebalanceSpec_def)
qed

text \<open>
  Claim C2, amended. For a signal on a supported asset and holdings with distinct keys:
  when the total is not positive or the holdings are the seeded \<open>{USD: 1}\<close>, the target
  percentage is ignored and the holdings become \<open>{asset: 1}\<close>; otherwise (positive total)
  the holdings become those of the rebalance rule with \<open>p = clamp(floor(weight), 0, 100)\<close>,
  provided the signal is not one for USD below 100 percent while USD holds the whole equity.
  Holdings \<open>{BTC: 1}\<close> and the signal \<open>ETH, weight 40\<close> give \<open>{BTC: 0.6, ETH: 0.4}\<close>.
\<close>

theorem applySignalTargetPct_rebalance:
  assumes "isSupportedAsset assetRaw" and "distinct (map fst b)"
  shows "(sumBuckets b \<le> 0 \<or> isBrandNewSeed b \<longrightarrow>
            fst (applySignalTargetPct b meta assetRaw d l w) = [(toUpperCase assetRaw, 1)])
       \<and> (0 < sumBuckets b \<and> \<not> isBrandNewSeed b
            \<and> (toUpperCase assetRaw \<noteq> ''USD'' \<or> getOr b ''USD'' 0 < sumBuckets b
                 \<or> 100 \<le> targetPercent w) \<longrightarrow>
            map_of (fst (applySignalTargetPct b meta assetRaw d l w))
              = rebalanceSpec (map_of b) (sumBuckets b) (toUpperCase assetRaw) (targetPercent w))
       \<and> fst (applySignalTargetPct [(''BTC'', 1)] meta ''ETH'' 0 2 40)
            = [(''BTC'', 3 / 5), (''ETH'', 2 / 5)]"
proof (intro conjI impI)
  assume "sumBuckets b \<le> 0 \<or> isBrandNewSeed b"
  then show "fst (applySignalTargetPct b meta assetRaw d l w) = [(toUpperCase assetRaw, 1)]"
    using assms by (simp add: applySignalTargetPct_first seed_result)
next
  assume h: "0 < sumBuckets b \<and> \<not> isBrandNewSeed b
    \<and> (toUpperCase assetRaw \<noteq> ''USD'' \<or> getOr b ''USD'' 0 < sumBuckets b \<or> 100 \<le> targetPercent w)"
  then have "toUpperCase assetRaw \<noteq> ''USD'' \<or> getOr b (toUpperCase assetRaw) 0 < sumBuckets b
               \<or> 100 \<le> targetPercent w"
    by auto
  then have "map_of (rebalanced b (toUpperCase assetRaw) w)
               = rebalanceSpec (map_of b) (sumBuckets b) (toUpperCase assetRaw) (targetPercent w)"
    by (rule map_of_rebalanced)
  then show "map_of (fst (applySignalTargetPct b meta assetRaw d l w))
               = rebalanceSpec (map_of b) (sumBuckets b) (toUpperCase assetRaw) (targetPercent w)"
    using assms(1) h by (simp add: applySignalTargetPct_later)
next
  have up: "toUpperCase ''ETH'' = ''ETH''"
    by (simp add: toUpperCase_def upperChar_def)
  have sup: "isSupportedAsset ''ETH''"
    by (simp add: isSupportedAsset_def isUsdAsset_def SUPPORTED_ASSETS_def up)
  have s: "sumBuckets [(''BTC'', 1)] = 1"
    by (simp add: sumBuckets_def)
  have seed: "\<not> isBrandNewSeed [(''BTC'', 1)]"
    by (simp add: isBrandNewSeed_def getOr_def)
  have c40: "clampPct 40 = 2 / 5"
    by (simp add: clampPct_def)
  have "rebalanced [(''BTC'', 1)] ''ETH'' 40 = [(''BTC'', 3 / 5), (''ETH'', 2 / 5)]"
    by (simp add: rebalanced_def Let_def s c40 getOr_def scaleOthers_def)
  then show "fst (applySignalTargetPct [(''BTC'', 1)] meta ''ETH'' 0 2 40)
               = [(''BTC'', 3 / 5), (''ETH'', 2 / 5)]"
    using sup s seed by (simp add: applySignalTargetPct_later up)
qed

theorem applySignalTargetPct_rebalance_witness:
  "isSupportedAsset ''ETH'' \<and> distinct (map fst [(''BTC'', 1 :: real)])
   \<and> 0 < sumBuckets [(''BTC'', 1)] \<and> \<not> isBrandNewSeed [(''BTC'', 1)]
   \<and> toUpperCase ''ETH'' \<noteq> ''USD''
   \<and> map_of (fst (applySignalTargetPct [(''BTC'', 1)] [] ''ETH'' 0 2 40))
       = rebalanceSpec (map_of [(''BTC'', 1)]) (sumBuckets [(''BTC'', 1)]) (toUpperCase ''ETH'')
           (targetPercent 40)
   \<and> isBrandNewSeed [(''USD'', 1)]
   \<and> fst (applySignalTargetPct [(''USD'', 1)] [] ''ETH'' 0 2 40) = [(toUpperCase ''ETH'', 1)]"
proof -
  have up: "toUpperCase ''ETH'' = ''ETH''"
    by (simp add: toUpperCase_def upperChar_def)
  have sup: "isSupportedAsset ''ETH''"
    by (simp add: isSupportedAsset_def isUsdAsset_def SUPPORTED_ASSETS_def up)
  have d1: "distinct (map fst [(''BTC'', 1 :: real)])" and d2: "distinct (map fst [(''USD'', 1 :: real)])"
    by simp_all
  have s: "0 < sumBuckets [(''BTC'', 1)]"
    by (simp add: sumBuckets_def)
  have seed: "\<not> isBrandNewSeed [(''BTC'', 1)]"
    by (simp add: isBrandNewSeed_def getOr_def)
  have usd: "toUpperCase ''USD'' = ''USD''"
    by (simp add: toUpperCase_def upperChar_def)
  have seed2: "isBrandNewSeed [(''USD'', 1)]"
    by (simp add: isBrandNewSeed_def getOr_def hasNonUsdExposure_def isUsdAsset_def usd)
  show ?thesis
    using applySignalTargetPct_rebalance [OF sup d1, of "[]" 0 2 40]
      applySignalTargetPct_rebalance [OF sup d2, of "[]" 0 2 40]
      sup s seed seed2 up
    by simp
qed

subsection \<open>Direction of a signal\<close>

text \<open>
  Claim C8 as stated fails at the raw enum value 2: it is not 1, yet ingestion stores it as
  Short (1) and the rebalance applies it as Short (-1).
\<close>

theorem ingestDirection_two_counterexample:
  "(2 :: int) \<noteq> 1 \<and> ingestDirection 2 = 1 \<and> signalDir False (ingestDirection 2) = - 1"
  by (simp add: ingestDirection_def signalDir_def)

lemma applySignalTargetPct_meta:
  assumes "isSupportedAsset assetRaw"
    and "map_of (snd (applySignalTargetPct b meta assetRaw d l w)) (toUpperCase assetRaw) = Some m"
  shows "m = \<lparr>direction = signalDir (isUsdAsset assetRaw) d,
              leverage = signalLev (isUsdAsset assetRaw) l, isUsd = isUsdAsset assetRaw\<rparr>"
proof (cases "toUpperCase assetRaw = ''USD''")
  case True
  then have usd: "isUsdAsset assetRaw"
    by (simp add: isUsdAsset_def)
  have usd': "isUsdAsset ''USD''"
    by (simp add: isUsdAsset_def toUpperCase_USD)
  have sup': "isSupportedAsset ''USD''"
    using assms(1) True isSupportedAsset_upper [of assetRaw] by simp
  show ?thesis
    using assms True usd usd' sup'
    by (auto simp: applySignalTargetPct_def Let_def isSupportedAsset_upper isUsdAsset_upper
        update_conv' delete_conv' cashMeta_def signalDir_def signalLev_def
        split: prod.splits if_splits)
next
  case False
  then show ?thesis
    using assms
    by (auto simp: applySignalTargetPct_def Let_def isSupportedAsset_upper isUsdAsset_upper
        update_conv' delete_conv' split: prod.splits if_splits)
qed

text \<open>
  Claim C8, amended. Ingestion stores the raw enum values 1 and 2 as Short (1) and every other
  value as Long (0); the rebalance applies a stored 1 as Short (-1) and any other stored value
  as Long (+1) to an asset that is not USD. So, end to end, the raw values 1 and 2 mean Short
  and every other value means Long, in the stored signal and in the bucket's direction.
\<close>

theorem direction_ingest_then_apply:
  "ingestDirection t = (if t = 1 \<or> t = 2 then 1 else 0)
   \<and> signalDir False d = (if d = 1 then - 1 else 1)
   \<and> (isSupportedAsset assetRaw \<and> \<not> isUsdAsset assetRaw
        \<and> map_of (snd (applySignalTargetPct b meta assetRaw (ingestDirection t) l w))
             (toUpperCase assetRaw) = Some m
       \<longrightarrow> direction m = (if t = 1 \<or> t = 2 then - 1 else 1))"
proof (intro conjI impI)
  show "ingestDirection t = (if t = 1 \<or> t = 2 then 1 else 0)"
    by (simp add: ingestDirection_def)
  show "signalDir False d = (if d = 1 then - 1 else 1)"
    by (simp add: signalDir_def)
next
  assume h: "isSupportedAsset assetRaw \<and> \<not> isUsdAsset assetRaw
     \<and> map_of (snd (applySignalTargetPct b meta assetRaw (ingestDirection t) l w))
          (toUpperCase assetRaw) = Some m"
  then have "direction m = signalDir False (ingestDirection t)"
    using applySignalTargetPct_meta [of assetRaw b meta "ingestDirection t" l w m] by simp
  then show "direction m = (if t = 1 \<or> t = 2 then - 1 else 1)"
    by (simp add: signalDir_def ingestDirection_def)
qed

theorem direction_ingest_then_apply_witness:
  "isSupportedAsset ''eth'' \<and> \<not> isUsdAsset ''eth''
   \<and> map_of (snd (applySignalTargetPct [(''USD'', 1)] [] ''eth'' (ingestDirection 2) 3 40))
        (toUpperCase ''eth'')
       = Some \<lparr>direction = - 1, leverage = 3, isUsd = False\<rparr>
   \<and> direction \<lparr>direction = - 1, leverage = 3, isUsd = False\<rparr> = (if (2::int) = 1 \<or> (2::int) = 2 then - 1 else 1)"
proof -
  have up: "toUpperCase ''eth'' = ''ETH''" "toUpperCase ''ETH'' = ''ETH''"
      "toUpperCase ''USD'' = ''USD''"
    by (simp_all add: toUpperCase_def upperChar_def)
  have sup: "isSupportedAsset ''eth''" "isSupportedAsset ''ETH''"
    by (simp_all add: isSupportedAsset_def isUsdAsset_def SUPPORTED_ASSETS_def up)
  have nusd: "\<not> isUsdAsset ''eth''" "\<not> isUsdAsset ''ETH''"
    by (simp_all add: isUsdAsset_def up)
  have seed: "isBrandNewSeed [(''USD'', 1)]"
    by (simp add: isBrandNewSeed_def getOr_def hasNonUsdExposure_def isUsdAsset_def up)
  have m: "map_of (snd (applySignalTargetPct [(''USD'', 1)] [] ''eth'' (ingestDirection 2) 3 40))
        (toUpperCase ''eth'') = Some \<lparr>direction = - 1, leverage = 3, isUsd = False\<rparr>"
    using sup nusd seed
    by (simp add: applySignalTargetPct_def Let_def up signalDir_def signalLev_def ingestDirection_def)
  show ?thesis
    using direction_ingest_then_apply [of 2 1 "''eth''" "[(''USD'', 1)]" "[]" 3 40
        "\<lparr>direction = - 1, leverage = 3, isUsd = False\<rparr>"] sup nusd m
    by simp
qed

section \<open>Price lookup and drift (segments.ts)\<close>

record PriceSeries =
  ts :: "int list"
  px :: "real list"

text \<open>
  The binary search of \<open>priceAtOrBefore\<close> (lines 205-217) with its three loop variables.
  A read outside the array gives \<open>undefined\<close>, and \<open>undefined <= ts\<close> is false.
  For the indices of an array \<open>(lo + hi) >> 1\<close> is \<open>(lo + hi) div 2\<close>.
\<close>

function bsearch :: "int list \<Rightarrow> int \<Rightarrow> int \<Rightarrow> int \<Rightarrow> int \<Rightarrow> int" where
  "bsearch tss t lo hi best =
     (if lo \<le> hi
      then (let mid = (lo + hi) div 2 in
            if 0 \<le> mid \<and> nat mid < length tss \<and> tss ! nat mid \<le> t
            then bsearch tss t (mid + 1) hi mid
            else bsearch tss t lo (mid - 1) best)
      else best)"
  by pat_completeness auto
termination
  by (relation "measure (\<lambda>(tss, t, lo, hi, best). nat (hi - lo + 1))") auto

declare bsearch.simps [simp del]

definition priceAtOrBefore :: "PriceSeries option \<Rightarrow> int \<Rightarrow> real option" where
  "priceAtOrBefore series t =
     (case series of
        None \<Rightarrow> None
      | Some s \<Rightarrow>
          if length (ts s) = 0 then None
          else
            let best = bsearch (ts s) t 0 (int (length (ts s)) - 1) (- 1) in
            if best < 0 then None
            else if nat best < length (px s) \<and> px s ! nat best > 0
            then Some (px s ! nat best) else None)"

text \<open>
  One round of the loop of \<open>drift\<close> (lines 537-552) for the entry \<open>(asset, val)\<close> of the
  entries taken when the loop starts; \<open>assetPriceSeries\<close> is a dictionary of series.
\<close>

definition defaultMeta :: PosMeta where
  "defaultMeta = \<lparr>direction = 1, leverage = 1, isUsd = False\<rparr>"

definition driftOne ::
  "(string \<times> PriceSeries) list \<Rightarrow> metas \<Rightarrow> int \<Rightarrow> int \<Rightarrow> string \<times> real \<Rightarrow> buckets \<Rightarrow> buckets" where
  "driftOne assetPriceSeries meta t0 t1 = (\<lambda>(asset, val) b.
     if val \<le> 0 then b
     else
       let sym = toUpperCase asset in
       if isUsdAsset sym then b
       else
         let series = map_of assetPriceSeries sym in
         case (priceAtOrBefore series t0, priceAtOrBefore series t1) of
           (Some p0, Some p1) \<Rightarrow>
             if p0 \<le> 0 then b
             else
               let rAsset = (p1 - p0) / p0;
                   m = getOr meta sym defaultMeta;
                   signed = real_of_int (direction m) * leverage m * rAsset;
                   mult = 1 + signed
               in AList.update sym (if mult \<le> 0 then 0 else val * mult) b
         | _ \<Rightarrow> b)"

definition drift ::
  "(string \<times> PriceSeries) list \<Rightarrow> metas \<Rightarrow> int \<Rightarrow> int \<Rightarrow> buckets \<Rightarrow> buckets" where
  "drift assetPriceSeries meta t0 t1 b =
     (if t1 \<le> t0 then b else fold (driftOne assetPriceSeries meta t0 t1) b b)"

text \<open>
  The latest stored sample at or before \<open>t\<close>, in the words of the specification: the last
  of the samples of the series whose timestamp is at most \<open>t\<close>.
\<close>

definition latestSample :: "PriceSeries \<Rightarrow> int \<Rightarrow> (int \<times> real) option" where
  "latestSample s t =
     (case filter (\<lambda>(u, p). u \<le> t) (zip (ts s) (px s)) of
        [] \<Rightarrow> None
      | e # es \<Rightarrow> Some (last (e # es)))"

text \<open>The factor by which the drift multiplies a bucket, given both endpoint prices.\<close>

definition driftFactor :: "PosMeta \<Rightarrow> real \<Rightarrow> real \<Rightarrow> real" where
  "driftFactor m p0 p1 = max 0 (1 + real_of_int (direction m) * leverage m * ((p1 - p0) / p0))"

subsection \<open>The binary search finds the last sample at or before the query\<close>

lemma bsearch_sorted:
  assumes "sorted tss" and "best = lo - 1"
    and "0 \<le> lo" and "hi < int (length tss)" and "lo \<le> hi + 1"
    and "\<forall>i. int i < lo \<longrightarrow> tss ! i \<le> t"
    and "\<forall>i. hi < int i \<and> i < length tss \<longrightarrow> t < tss ! i"
  shows "lo - 1 \<le> bsearch tss t lo hi best \<and> bsearch tss t lo hi best \<le> hi
       \<and> (\<forall>i. int i \<le> bsearch tss t lo hi best \<longrightarrow> tss ! i \<le> t)
       \<and> (\<forall>i. bsearch tss t lo hi best < int i \<and> i < length tss \<longrightarrow> t < tss ! i)"
  using assms
proof (induction tss t lo hi best rule: bsearch.induct)
  case (1 tss t lo hi best)
  show ?case
  proof (cases "lo \<le> hi")
    case False
    then have "bsearch tss t lo hi best = lo - 1"
      using "1.prems"(2) by (simp add: bsearch.simps)
    moreover have "hi = lo - 1" using False "1.prems"(5) by simp
    ultimately show ?thesis using "1.prems" by auto
  next
    case True
    define mid where "mid = (lo + hi) div 2"
    have mid: "lo \<le> mid" "mid \<le> hi" using True by (simp_all add: mid_def)
    have inr: "0 \<le> mid" "nat mid < length tss" using mid "1.prems"(3,4) by auto
    show ?thesis
    proof (cases "tss ! nat mid \<le> t")
      case le: True
      have step: "bsearch tss t lo hi best = bsearch tss t (mid + 1) hi mid"
        using True le inr by (subst bsearch.simps) (simp add: mid_def Let_def)
      have below: "\<forall>i. int i < mid + 1 \<longrightarrow> tss ! i \<le> t"
      proof (intro allI impI)
        fix i assume "int i < mid + 1"
        then have "i \<le> nat mid" by simp
        then have "tss ! i \<le> tss ! nat mid"
          using "1.prems"(1) inr(2) by (simp add: sorted_nth_mono)
        then show "tss ! i \<le> t" using le by simp
      qed
      have c: "0 \<le> mid \<and> nat mid < length tss \<and> tss ! nat mid \<le> t"
        using le inr by simp
      have IH: "mid + 1 - 1 \<le> bsearch tss t (mid + 1) hi mid
          \<and> bsearch tss t (mid + 1) hi mid \<le> hi
          \<and> (\<forall>i. int i \<le> bsearch tss t (mid + 1) hi mid \<longrightarrow> tss ! i \<le> t)
          \<and> (\<forall>i. bsearch tss t (mid + 1) hi mid < int i \<and> i < length tss \<longrightarrow> t < tss ! i)"
        by (rule "1.IH"(1) [OF True mid_def c "1.prems"(1)])
           (use inr mid "1.prems"(4,7) below in simp_all)
      show ?thesis using IH step mid by auto
    next
      case gt: False
      have step: "bsearch tss t lo hi best = bsearch tss t lo (mid - 1) best"
        using True gt by (subst bsearch.simps) (simp add: mid_def Let_def)
      have above: "\<forall>i. mid - 1 < int i \<and> i < length tss \<longrightarrow> t < tss ! i"
      proof (intro allI impI)
        fix i assume h: "mid - 1 < int i \<and> i < length tss"
        then have "nat mid \<le> i" by linarith
        then have "tss ! nat mid \<le> tss ! i"
          using "1.prems"(1) h by (simp add: sorted_nth_mono)
        then show "t < tss ! i" using gt by simp
      qed
      have c: "\<not> (0 \<le> mid \<and> nat mid < length tss \<and> tss ! nat mid \<le> t)"
        using gt by simp
      have IH: "lo - 1 \<le> bsearch tss t lo (mid - 1) best
          \<and> bsearch tss t lo (mid - 1) best \<le> mid - 1
          \<and> (\<forall>i. int i \<le> bsearch tss t lo (mid - 1) best \<longrightarrow> tss ! i \<le> t)
          \<and> (\<forall>i. bsearch tss t lo (mid - 1) best < int i \<and> i < length tss \<longrightarrow> t < tss ! i)"
        by (rule "1.IH"(2) [OF True mid_def c "1.prems"(1,2,3)])
           (use inr mid "1.prems"(4,6) above in simp_all)
      show ?thesis using IH step mid by auto
    qed
  qed
qed

lemma filter_prefix:
  assumes "n \<le> length xs" and "\<forall>i < n. P (xs ! i)" and "\<forall>i. n \<le> i \<and> i < length xs \<longrightarrow> \<not> P (xs ! i)"
  shows "filter P xs = take n xs"
proof -
  have a: "filter P (take n xs) = take n xs"
    using assms(1,2) by (auto simp: filter_id_conv in_set_conv_nth)
  have b: "filter P (drop n xs) = []"
    using assms(3) by (auto simp: filter_empty_conv in_set_conv_nth)
  have "filter P xs = filter P (take n xs @ drop n xs)" by simp
  also have "\<dots> = take n xs" using a b by (simp only: filter_append append_Nil2)
  finally show ?thesis .
qed

lemma latestSample_take:
  assumes "length pxs = length tss" and "n \<le> length tss"
    and "\<forall>i < n. tss ! i \<le> t" and "\<forall>i. n \<le> i \<and> i < length tss \<longrightarrow> t < tss ! i"
  shows "latestSample \<lparr>ts = tss, px = pxs\<rparr> t =
           (if n = 0 then None else Some (tss ! (n - 1), pxs ! (n - 1)))"
proof -
  have f: "filter (\<lambda>(u, p). u \<le> t) (zip tss pxs) = take n (zip tss pxs)"
    using assms by (intro filter_prefix) auto
  show ?thesis
  proof (cases "n = 0")
    case True
    then show ?thesis using f by (simp add: latestSample_def)
  next
    case False
    then have ne: "take n (zip tss pxs) \<noteq> []" using assms(1,2) by auto
    have len: "length (take n (zip tss pxs)) = n"
      using assms(1,2) by simp
    have "last (take n (zip tss pxs)) = take n (zip tss pxs) ! (n - 1)"
      using ne len by (simp add: last_conv_nth)
    also have "\<dots> = zip tss pxs ! (n - 1)"
      using False by simp
    also have "\<dots> = (tss ! (n - 1), pxs ! (n - 1))"
      using False assms(1,2) by simp
    finally have "last (take n (zip tss pxs)) = (tss ! (n - 1), pxs ! (n - 1))" .
    moreover obtain e es where tk: "take n (zip tss pxs) = e # es"
      using ne by (cases "take n (zip tss pxs)") auto
    have "latestSample \<lparr>ts = tss, px = pxs\<rparr> t = Some (last (take n (zip tss pxs)))"
      using f tk by (simp add: latestSample_def)
    ultimately show ?thesis
      using False by simp
  qed
qed

text \<open>The price of the latest sample at or before \<open>t\<close>, when it is positive.\<close>

definition latestPositivePrice :: "PriceSeries option \<Rightarrow> int \<Rightarrow> real option" where
  "latestPositivePrice series t =
     (case series of
        None \<Rightarrow> None
      | Some s \<Rightarrow>
          (case latestSample s t of
             None \<Rightarrow> None
           | Some (u, p) \<Rightarrow> if p > 0 then Some p else None))"

lemma priceAtOrBefore_latest:
  assumes "sorted (ts s)" and "length (px s) = length (ts s)"
  shows "priceAtOrBefore (Some s) t = latestPositivePrice (Some s) t"
proof (cases "ts s = []")
  case True
  then show ?thesis
    by (simp add: priceAtOrBefore_def latestPositivePrice_def latestSample_def)
next
  case False
  define r where "r = bsearch (ts s) t 0 (int (length (ts s)) - 1) (- 1)"
  have bs: "- 1 \<le> r \<and> r \<le> int (length (ts s)) - 1
       \<and> (\<forall>i. int i \<le> r \<longrightarrow> ts s ! i \<le> t)
       \<and> (\<forall>i. r < int i \<and> i < length (ts s) \<longrightarrow> t < ts s ! i)"
    using bsearch_sorted [of "ts s" "- 1" 0 "int (length (ts s)) - 1" t] assms(1)
    by (simp add: r_def)
  define n where "n = nat (r + 1)"
  have n: "n \<le> length (ts s)" using bs by (simp add: n_def nat_le_iff)
  have lo: "\<forall>i < n. ts s ! i \<le> t"
  proof (intro allI impI)
    fix i assume "i < n"
    then have "int i \<le> r" by (simp add: n_def)
    then show "ts s ! i \<le> t" using bs by blast
  qed
  have hi: "\<forall>i. n \<le> i \<and> i < length (ts s) \<longrightarrow> t < ts s ! i"
  proof (intro allI impI)
    fix i assume h: "n \<le> i \<and> i < length (ts s)"
    then have "r < int i" unfolding n_def by linarith
    then show "t < ts s ! i" using bs h by blast
  qed
  have s: "s = \<lparr>ts = ts s, px = px s\<rparr>" by simp
  have ls: "latestSample s t = (if n = 0 then None else Some (ts s ! (n - 1), px s ! (n - 1)))"
    using latestSample_take [OF assms(2) n lo hi] s by simp
  show ?thesis
  proof (cases "r < 0")
    case True
    then have "n = 0" by (simp add: n_def)
    then show ?thesis
      using True False ls by (simp add: priceAtOrBefore_def latestPositivePrice_def r_def[symmetric])
  next
    case nonneg: False
    then have n1: "n - 1 = nat r" "n \<noteq> 0" by (simp_all add: n_def)
    have "r < int (length (ts s))" using bs by simp
    then have "nat r < length (px s)" using nonneg assms(2) by linarith
    then show ?thesis
      using nonneg False ls n1
      by (simp add: priceAtOrBefore_def latestPositivePrice_def r_def[symmetric])
  qed
qed

lemma priceAtOrBefore_positive: "priceAtOrBefore series t = Some p \<Longrightarrow> 0 < p"
  by (auto simp: priceAtOrBefore_def Let_def split: option.splits if_splits)

subsection \<open>What one drift does to one bucket\<close>

text \<open>The value of the bucket \<open>sym\<close> after the drift, from its value \<open>val\<close> before.\<close>

definition driftedValue ::
  "(string \<times> PriceSeries) list \<Rightarrow> metas \<Rightarrow> int \<Rightarrow> int \<Rightarrow> string \<Rightarrow> real \<Rightarrow> real" where
  "driftedValue assetPriceSeries meta t0 t1 k val =
     (if val \<le> 0 \<or> isUsdAsset k then val
      else case (priceAtOrBefore (map_of assetPriceSeries k) t0,
                 priceAtOrBefore (map_of assetPriceSeries k) t1) of
             (Some p0, Some p1) \<Rightarrow> val * driftFactor (getOr meta k defaultMeta) p0 p1
           | _ \<Rightarrow> val)"

lemma driftOne_map_of:
  assumes "toUpperCase a = a" and "map_of b a = Some val"
  shows "map_of (driftOne aps meta t0 t1 (a, val) b) k =
           (if k = a then Some (driftedValue aps meta t0 t1 a val) else map_of b k)"
  using assms
  by (auto simp: driftOne_def driftedValue_def driftFactor_def Let_def update_conv' max_def
      dest: priceAtOrBefore_positive split: option.splits)

lemma driftOne_keys:
  assumes "toUpperCase a = a" and "map_of b a = Some val"
  shows "map fst (driftOne aps meta t0 t1 (a, val) b) = map fst b"
proof -
  have "(a, val) \<in> set b" using assms(2) by (rule map_of_SomeD)
  then have "a \<in> fst ` set b" by force
  then have "map fst (AList.update a u b) = map fst b" for u
    by (simp add: update_keys)
  then show ?thesis
    using assms(1)
    by (auto simp: driftOne_def Let_def split: option.splits)
qed

lemma fold_driftOne_map_of:
  assumes "distinct (map fst es)"
    and "\<forall>(a, v) \<in> set es. toUpperCase a = a \<and> map_of b a = Some v"
  shows "map_of (fold (driftOne aps meta t0 t1) es b) k =
           (case map_of es k of
              None \<Rightarrow> map_of b k
            | Some v \<Rightarrow> Some (driftedValue aps meta t0 t1 k v))"
  using assms
proof (induction es arbitrary: b)
  case Nil
  show ?case by simp
next
  case (Cons e es)
  obtain a v where e: "e = (a, v)" by (cases e)
  have up: "toUpperCase a = a" and ba: "map_of b a = Some v"
    using Cons.prems(2) e by auto
  define b' where "b' = driftOne aps meta t0 t1 (a, v) b"
  have b': "map_of b' k' = (if k' = a then Some (driftedValue aps meta t0 t1 a v) else map_of b k')"
    for k' unfolding b'_def using up ba by (rule driftOne_map_of)
  have notin: "a \<notin> fst ` set es" using Cons.prems(1) e by auto
  have pre: "\<forall>(a', v') \<in> set es. toUpperCase a' = a' \<and> map_of b' a' = Some v'"
  proof (intro ballI, clarify)
    fix a' v' assume m: "(a', v') \<in> set es"
    then have "a' \<noteq> a" using notin by force
    moreover have "toUpperCase a' = a' \<and> map_of b a' = Some v'"
      using Cons.prems(2) m by auto
    ultimately show "toUpperCase a' = a' \<and> map_of b' a' = Some v'"
      by (simp add: b')
  qed
  have IH: "map_of (fold (driftOne aps meta t0 t1) es b') k =
              (case map_of es k of None \<Rightarrow> map_of b' k
               | Some v \<Rightarrow> Some (driftedValue aps meta t0 t1 k v))"
    using Cons.IH [OF _ pre] Cons.prems(1) by simp
  have none: "map_of es a = None" using notin by (simp add: map_of_eq_None_iff)
  show ?case
    using IH e none by (simp add: b'_def[symmetric] b' split: option.splits)
qed

lemma drift_map_of:
  assumes "distinct (map fst b)" and "\<forall>k \<in> fst ` set b. toUpperCase k = k" and "t0 < t1"
  shows "map_of (drift aps meta t0 t1 b) k = map_option (driftedValue aps meta t0 t1 k) (map_of b k)"
proof -
  have pre: "\<forall>(a, v) \<in> set b. toUpperCase a = a \<and> map_of b a = Some v"
    using assms(1,2) by force
  show ?thesis
    using fold_driftOne_map_of [OF assms(1) pre, of aps meta t0 t1 k] assms(3)
    by (simp add: drift_def split: option.splits)
qed

subsection \<open>Price drift of a bucket\<close>

text \<open>
  Claim C3. On holdings with distinct upper-case keys and sorted price series, a drift from
  \<open>t0\<close> to \<open>t1 > t0\<close> leaves a cash bucket as it is and turns the value \<open>v \<ge> 0\<close> of a
  non-cash bucket into \<open>v * max(0, 1 + direction * leverage * (p1 - p0) / p0)\<close>, where
  \<open>p0\<close> and \<open>p1\<close> are the prices of the latest stored samples at or before \<open>t0\<close> and \<open>t1\<close>
  (direction and leverage of the bucket's meta, 1 and 1 if it has none); when one of the two
  prices is missing or not positive the value stays \<open>v\<close>. The new value is never negative.
\<close>

theorem drift_bucket_floor:
  assumes "distinct (map fst b)" and "\<forall>a \<in> fst ` set b. toUpperCase a = a" and "t0 < t1"
    and "map_of b k = Some v" and "0 \<le> v"
    and "\<forall>s. map_of aps k = Some s \<longrightarrow> sorted (ts s) \<and> length (px s) = length (ts s)"
  shows "map_of (drift aps meta t0 t1 b) k =
           Some (if isUsdAsset k then v
                 else case (latestPositivePrice (map_of aps k) t0,
                            latestPositivePrice (map_of aps k) t1) of
                        (Some p0, Some p1) \<Rightarrow>
                          v * max 0 (1 + real_of_int (direction (getOr meta k defaultMeta))
                                         * leverage (getOr meta k defaultMeta) * ((p1 - p0) / p0))
                      | _ \<Rightarrow> v)
       \<and> (\<forall>v'. map_of (drift aps meta t0 t1 b) k = Some v' \<longrightarrow> 0 \<le> v')"
proof -
  have pr: "priceAtOrBefore (map_of aps k) t = latestPositivePrice (map_of aps k) t" for t
  proof (cases "map_of aps k")
    case None
    then show ?thesis by (simp add: priceAtOrBefore_def latestPositivePrice_def)
  next
    case (Some s)
    then show ?thesis using assms(6) priceAtOrBefore_latest [of s t] by simp
  qed
  have d: "map_of (drift aps meta t0 t1 b) k = Some (driftedValue aps meta t0 t1 k v)"
    using drift_map_of [OF assms(1,2,3), of aps meta k] assms(4) by simp
  have nn: "0 \<le> driftedValue aps meta t0 t1 k v"
    using assms(5)
    by (auto simp: driftedValue_def driftFactor_def split: option.splits)
  have eq: "driftedValue aps meta t0 t1 k v =
      (if isUsdAsset k then v
       else case (latestPositivePrice (map_of aps k) t0, latestPositivePrice (map_of aps k) t1) of
              (Some p0, Some p1) \<Rightarrow>
                v * max 0 (1 + real_of_int (direction (getOr meta k defaultMeta))
                               * leverage (getOr meta k defaultMeta) * ((p1 - p0) / p0))
            | _ \<Rightarrow> v)"
    using assms(5)
    by (auto simp: driftedValue_def driftFactor_def pr split: option.splits)
  show ?thesis using d nn eq by simp
qed

theorem drift_bucket_floor_witness:
  "map_of (drift [(''BTC'', \<lparr>ts = [0, 3600], px = [100, 70]\<rparr>)]
             [(''BTC'', \<lparr>direction = 1, leverage = 5, isUsd = False\<rparr>)] 0 3600
             [(''BTC'', 1), (''USD'', 2)]) ''BTC'' = Some 0
   \<and> map_of (drift [(''BTC'', \<lparr>ts = [0, 3600], px = [100, 110]\<rparr>)]
             [(''BTC'', \<lparr>direction = - 1, leverage = 2, isUsd = False\<rparr>)] 0 3600
             [(''BTC'', 1), (''USD'', 2)]) ''BTC'' = Some (4 / 5)"
proof -
  have up: "\<forall>a \<in> fst ` set [(''BTC'', 1 :: real), (''USD'', 2)]. toUpperCase a = a"
    by (simp add: toUpperCase_def upperChar_def)
  have d: "distinct (map fst [(''BTC'', 1 :: real), (''USD'', 2)])"
    by simp
  have t: "(0 :: int) < 3600"
    by simp
  have m: "map_of [(''BTC'', 1 :: real), (''USD'', 2)] ''BTC'' = Some 1" and v: "(0 :: real) \<le> 1"
    by simp_all
  have s1: "\<forall>s. map_of [(''BTC'', \<lparr>ts = [0, 3600], px = [100, 70]\<rparr>)] ''BTC'' = Some s
               \<longrightarrow> sorted (ts s) \<and> length (px s) = length (ts s)"
    by simp
  have s2: "\<forall>s. map_of [(''BTC'', \<lparr>ts = [0, 3600], px = [100, 110]\<rparr>)] ''BTC'' = Some s
               \<longrightarrow> sorted (ts s) \<and> length (px s) = length (ts s)"
    by simp
  have nusd: "\<not> isUsdAsset ''BTC''"
    by (simp add: isUsdAsset_def toUpperCase_def upperChar_def)
  show ?thesis
    using drift_bucket_floor [OF d up t m v s1,
            of "[(''BTC'', \<lparr>direction = 1, leverage = 5, isUsd = False\<rparr>)]"]
      drift_bucket_floor [OF d up t m v s2,
            of "[(''BTC'', \<lparr>direction = - 1, leverage = 2, isUsd = False\<rparr>)]"]
      nusd
    by (simp add: latestPositivePrice_def latestSample_def getOr_def)
qed

subsection \<open>When the price lookup gives nothing\<close>

text \<open>
  Claim C9. Without a series \<open>priceAtOrBefore\<close> returns null. On a sorted series it returns
  null exactly when no sample is at or before the query, or the latest such sample has a
  price that is not positive (earlier samples are not consulted); and a null price at either
  endpoint makes the drift leave the bucket unchanged.
\<close>

theorem priceAtOrBefore_null_iff:
  assumes "sorted (ts s)" and "length (px s) = length (ts s)"
  shows "priceAtOrBefore None t = None
       \<and> (priceAtOrBefore (Some s) t = None \<longleftrightarrow>
            latestSample s t = None \<or> (\<exists>u p. latestSample s t = Some (u, p) \<and> p \<le> 0))
       \<and> (\<forall>p. priceAtOrBefore (Some s) t = Some p \<longleftrightarrow>
            (\<exists>u. latestSample s t = Some (u, p) \<and> 0 < p))
       \<and> (distinct (map fst b) \<and> (\<forall>a \<in> fst ` set b. toUpperCase a = a) \<and> t0 < t1
            \<and> map_of aps k = Some s
            \<and> (priceAtOrBefore (Some s) t0 = None \<or> priceAtOrBefore (Some s) t1 = None)
          \<longrightarrow> map_of (drift aps meta t0 t1 b) k = map_of b k)"
proof (intro conjI impI allI)
  show "priceAtOrBefore None t = None"
    by (simp add: priceAtOrBefore_def)
  show "priceAtOrBefore (Some s) t = None \<longleftrightarrow>
          latestSample s t = None \<or> (\<exists>u p. latestSample s t = Some (u, p) \<and> p \<le> 0)"
    using priceAtOrBefore_latest [OF assms, of t]
    by (auto simp: latestPositivePrice_def split: option.splits if_splits)
  show "priceAtOrBefore (Some s) t = Some p \<longleftrightarrow> (\<exists>u. latestSample s t = Some (u, p) \<and> 0 < p)" for p
    using priceAtOrBefore_latest [OF assms, of t]
    by (auto simp: latestPositivePrice_def split: option.splits if_splits)
next
  assume h: "distinct (map fst b) \<and> (\<forall>a \<in> fst ` set b. toUpperCase a = a) \<and> t0 < t1
     \<and> map_of aps k = Some s
     \<and> (priceAtOrBefore (Some s) t0 = None \<or> priceAtOrBefore (Some s) t1 = None)"
  then have "driftedValue aps meta t0 t1 k v = v" for v
    by (auto simp: driftedValue_def split: option.splits)
  then have "map_option (driftedValue aps meta t0 t1 k) (map_of b k) = map_of b k"
    by (cases "map_of b k") simp_all
  then show "map_of (drift aps meta t0 t1 b) k = map_of b k"
    using h drift_map_of [of b t0 t1 aps meta k] by simp
qed

theorem priceAtOrBefore_null_iff_witness:
  "priceAtOrBefore (Some \<lparr>ts = [0, 3600], px = [100, 0]\<rparr>) 3600 = None
   \<and> priceAtOrBefore (Some \<lparr>ts = [0, 3600], px = [100, 0]\<rparr>) 3599 = Some 100
   \<and> map_of (drift [(''BTC'', \<lparr>ts = [0, 3600], px = [100, 0]\<rparr>)] [] 0 3600 [(''BTC'', 1)]) ''BTC''
       = Some 1"
proof -
  have s: "sorted (ts \<lparr>ts = [0, 3600], px = [100, 0]\<rparr>)"
    and l: "length (px \<lparr>ts = [0, 3600], px = [100, 0]\<rparr>) = length (ts \<lparr>ts = [0 :: int, 3600], px = [100, 0]\<rparr>)"
    by simp_all
  have up: "\<forall>a \<in> fst ` set [(''BTC'', 1 :: real)]. toUpperCase a = a"
    by (simp add: toUpperCase_def upperChar_def)
  have a: "priceAtOrBefore (Some \<lparr>ts = [0, 3600], px = [100, 0]\<rparr>) 3600 = None"
    using priceAtOrBefore_null_iff [OF s l, of 3600] by (simp add: latestSample_def)
  have b: "priceAtOrBefore (Some \<lparr>ts = [0, 3600], px = [100, 0]\<rparr>) 3599 = Some 100"
    using priceAtOrBefore_null_iff [OF s l, of 3599] by (simp add: latestSample_def)
  have c: "map_of (drift [(''BTC'', \<lparr>ts = [0, 3600], px = [100, 0]\<rparr>)] [] 0 3600 [(''BTC'', 1)]) ''BTC''
       = Some 1"
    using priceAtOrBefore_null_iff [OF s l, of 3600 "[(''BTC'', 1)]" 0 3600
        "[(''BTC'', \<lparr>ts = [0, 3600], px = [100, 0]\<rparr>)]" "''BTC''" "[]"] up a
    by simp
  show ?thesis using a b c by simp
qed

section \<open>Window statistics (segments.ts)\<close>

record SegmentRow =
  start_ts :: int
  end_ts :: int
  duration_sec :: int
  raw_return :: real
  hourly_equiv_ret :: real
  value_index_end :: real

record StatsRow =
  last_updated_ts :: int
  sharpe_annual :: "real option"
  vol_annual :: "real option"
  vol_hourly :: "real option"
  total_return :: real
  max_drawdown :: real

text \<open>The windows with their length in seconds; \<open>None\<close> is \<open>Infinity\<close>.\<close>

definition STAT_WINDOWS :: "(string \<times> int option) list" where
  "STAT_WINDOWS =
     [(''1W'', Some (7 * 24 * 3600)), (''1M'', Some (30 * 24 * 3600)),
      (''3M'', Some (90 * 24 * 3600)), (''6M'', Some (180 * 24 * 3600)),
      (''1Y'', Some (365 * 24 * 3600)), (''ALL'', None)]"

definition MIN_SHARPE_OBS :: nat where
  "MIN_SHARPE_OBS = 24"

definition SHARPE_MATURITY_HOURS :: real where
  "SHARPE_MATURITY_HOURS = 24 * 30"

definition maturityMultiplier :: "real \<Rightarrow> real" where
  "maturityMultiplier totalHours =
     (if totalHours \<le> 0 then 0 else max 0 (min 1 (totalHours / SHARPE_MATURITY_HOURS)))"

text \<open>\<open>Array.prototype.findIndex\<close>; \<open>None\<close> is the result -1.\<close>

fun findIndex :: "('a \<Rightarrow> bool) \<Rightarrow> 'a list \<Rightarrow> nat option" where
  "findIndex P [] = None"
| "findIndex P (x # xs) = (if P x then Some 0 else map_option Suc (findIndex P xs))"

text \<open>
  \<open>computeMaxDrawdown\<close>: the loop over \<open>valueIdx[i0..]\<close> carries \<open>(peak, maxDD)\<close>.
\<close>

definition computeMaxDrawdown :: "real list \<Rightarrow> nat \<Rightarrow> real \<Rightarrow> real" where
  "computeMaxDrawdown valueIdx i0 baseValue =
     snd (foldl (\<lambda>(peak, maxDD) x.
                  let eq = x / baseValue;
                      peak' = (if eq > peak then eq else peak);
                      dd = (peak' - eq) / peak'
                  in (peak', if dd > maxDD then dd else maxDD))
                (1, 0) (drop i0 valueIdx))"

definition neutralStats :: "int \<Rightarrow> StatsRow" where
  "neutralStats nowSec =
     \<lparr>last_updated_ts = nowSec, sharpe_annual = None, vol_annual = None, vol_hourly = None,
      total_return = 0, max_drawdown = 0\<rparr>"

text \<open>The index \<open>i0\<close> where the window starts (lines 697-723).\<close>

definition windowStart :: "SegmentRow list \<Rightarrow> int \<Rightarrow> int option \<Rightarrow> nat option" where
  "windowStart segments nowSec seconds =
     (case seconds of
        None \<Rightarrow> Some 0
      | Some sec \<Rightarrow> findIndex (\<lambda>s. end_ts s \<ge> nowSec - sec) segments)"

definition windowBaseValue :: "SegmentRow list \<Rightarrow> nat \<Rightarrow> real" where
  "windowBaseValue segments i0 =
     (if i0 > 0 then map value_index_end segments ! (i0 - 1) else 1)"

definition windowFinalValue :: "SegmentRow list \<Rightarrow> real" where
  "windowFinalValue segments = map value_index_end segments ! (length segments - 1)"

text \<open>
  The loop of lines 750-757: the total of the hours and the hourly returns of the segments of
  the window whose duration is positive.
\<close>

definition windowCollect :: "SegmentRow list \<Rightarrow> nat \<Rightarrow> real \<times> real list" where
  "windowCollect segments i0 =
     foldl (\<lambda>(totalHours, windowHourly) s.
              let durHr = real_of_int (duration_sec s) / 3600 in
              if durHr \<le> 0 then (totalHours, windowHourly)
              else (totalHours + durHr, windowHourly @ [hourly_equiv_ret s]))
           (0, []) (drop i0 segments)"

definition meanOf :: "real list \<Rightarrow> real" where
  "meanOf xs = foldl (\<lambda>acc x. acc + x) 0 xs / real (length xs)"

definition sampleStd :: "real list \<Rightarrow> real" where
  "sampleStd xs =
     sqrt (foldl (\<lambda>acc x. acc + (x - meanOf xs) * (x - meanOf xs)) 0 xs / (real (length xs) - 1))"

text \<open>
  The row that one round of the loop over the windows upserts for its window. The function
  is called on a list of segments that is not empty.
\<close>

definition statsForWindow :: "SegmentRow list \<Rightarrow> int \<Rightarrow> int option \<Rightarrow> StatsRow" where
  "statsForWindow segments nowSec seconds =
     (case windowStart segments nowSec seconds of
        None \<Rightarrow> neutralStats nowSec
      | Some i0 \<Rightarrow>
          let valueIdx = map value_index_end segments;
              baseValue = windowBaseValue segments i0;
              finalValue = windowFinalValue segments
          in
          if baseValue \<le> 0 \<or> finalValue \<le> 0 then neutralStats nowSec
          else
            let totalReturn = finalValue / baseValue - 1;
                totalLogReturn = ln finalValue - ln baseValue;
                (totalHours, windowHourly) = windowCollect segments i0
            in
            if totalHours \<le> 0 \<or> length windowHourly < 2
            then \<lparr>last_updated_ts = nowSec, sharpe_annual = None, vol_annual = None,
                  vol_hourly = None, total_return = totalReturn,
                  max_drawdown = computeMaxDrawdown valueIdx i0 baseValue\<rparr>
            else
              let mu = totalLogReturn / totalHours;
                  nHr = length windowHourly;
                  stdHr = sampleStd windowHourly
              in
              if stdHr = 0
              then \<lparr>last_updated_ts = nowSec, sharpe_annual = None, vol_annual = None,
                    vol_hourly = None, total_return = totalReturn,
                    max_drawdown = computeMaxDrawdown valueIdx i0 baseValue\<rparr>
              else
                \<lparr>last_updated_ts = nowSec,
                 sharpe_annual =
                   (if nHr \<ge> MIN_SHARPE_OBS \<and> stdHr > 0
                    then Some (mu / stdHr * sqrt 8760 * maturityMultiplier totalHours)
                    else None),
                 vol_annual = Some (stdHr * sqrt 8760),
                 vol_hourly = Some stdHr,
                 total_return = totalReturn,
                 max_drawdown = computeMaxDrawdown valueIdx i0 baseValue\<rparr>)"

text \<open>
  \<open>recomputeStatsForStrategy\<close>: the table \<open>strategy_stats\<close> is a map from its unique key
  \<open>(strategy_id, window)\<close> to the row, and the upsert overwrites the row of the key.
\<close>

type_synonym stats_table = "int \<times> string \<rightharpoonup> StatsRow"

definition recomputeStatsForStrategy ::
  "stats_table \<Rightarrow> int \<Rightarrow> SegmentRow list \<Rightarrow> int \<Rightarrow> stats_table" where
  "recomputeStatsForStrategy stats strategyId segments nowSec =
     (if length segments = 0 then stats
      else foldl (\<lambda>st (winId, seconds).
                    st((strategyId, winId) \<mapsto> statsForWindow segments nowSec seconds))
                 stats STAT_WINDOWS)"

text \<open>
  The window in the words of the specification: the slice is the suffix of the ordered
  segments that starts at the first segment with \<open>endTs \<ge> now - windowSeconds\<close> (all
  segments for ALL), and the segments before it are the rest.
\<close>

definition windowSlice :: "SegmentRow list \<Rightarrow> int \<Rightarrow> int option \<Rightarrow> SegmentRow list" where
  "windowSlice segments nowSec seconds =
     (case seconds of
        None \<Rightarrow> segments
      | Some sec \<Rightarrow> dropWhile (\<lambda>s. end_ts s < nowSec - sec) segments)"

definition beforeWindow :: "SegmentRow list \<Rightarrow> int \<Rightarrow> int option \<Rightarrow> SegmentRow list" where
  "beforeWindow segments nowSec seconds =
     (case seconds of
        None \<Rightarrow> []
      | Some sec \<Rightarrow> takeWhile (\<lambda>s. end_ts s < nowSec - sec) segments)"

text \<open>The hourly observations of a slice and their total of hours.\<close>

definition sliceObservations :: "SegmentRow list \<Rightarrow> real list" where
  "sliceObservations slice = map hourly_equiv_ret (filter (\<lambda>s. duration_sec s > 0) slice)"

definition sliceHours :: "SegmentRow list \<Rightarrow> real" where
  "sliceHours slice =
     sum_list (map (\<lambda>s. real_of_int (duration_sec s) / 3600) (filter (\<lambda>s. duration_sec s > 0) slice))"

subsection \<open>The window of the program is the window of the specification\<close>

lemma findIndex_None: "findIndex P xs = None \<longleftrightarrow> (\<forall>x \<in> set xs. \<not> P x)"
  by (induction xs) auto

lemma findIndex_Some:
  "findIndex P xs = Some i \<Longrightarrow>
     i < length xs \<and> take i xs = takeWhile (\<lambda>x. \<not> P x) xs \<and> drop i xs = dropWhile (\<lambda>x. \<not> P x) xs"
  by (induction xs arbitrary: i) (auto split: if_splits)

lemma windowStart_None:
  "windowStart segments nowSec seconds = None \<longleftrightarrow>
     (\<exists>sec. seconds = Some sec \<and> (\<forall>s \<in> set segments. end_ts s < nowSec - sec))"
  by (cases seconds) (auto simp: windowStart_def findIndex_None not_le)

lemma windowStart_Some:
  assumes "windowStart segments nowSec seconds = Some i0"
  shows "take i0 segments = beforeWindow segments nowSec seconds
       \<and> drop i0 segments = windowSlice segments nowSec seconds \<and> i0 \<le> length segments"
proof (cases seconds)
  case None
  then show ?thesis using assms by (simp add: windowStart_def beforeWindow_def windowSlice_def)
next
  case (Some sec)
  have "takeWhile (\<lambda>x. \<not> nowSec - sec \<le> end_ts x) segments
          = takeWhile (\<lambda>s. end_ts s < nowSec - sec) segments"
    and "dropWhile (\<lambda>x. \<not> nowSec - sec \<le> end_ts x) segments
          = dropWhile (\<lambda>s. end_ts s < nowSec - sec) segments"
    by (simp_all add: not_le)
  then show ?thesis
    using assms Some findIndex_Some [of "\<lambda>s. end_ts s \<ge> nowSec - sec" segments i0]
    by (simp add: windowStart_def beforeWindow_def windowSlice_def)
qed

lemma windowBaseValue_before:
  assumes "windowStart segments nowSec seconds = Some i0"
  shows "windowBaseValue segments i0 =
           (if beforeWindow segments nowSec seconds = [] then 1
            else value_index_end (last (beforeWindow segments nowSec seconds)))"
proof -
  have t: "take i0 segments = beforeWindow segments nowSec seconds" and le: "i0 \<le> length segments"
    using windowStart_Some [OF assms] by simp_all
  show ?thesis
  proof (cases "i0 = 0")
    case True
    then show ?thesis using t by (simp add: windowBaseValue_def)
  next
    case False
    then have ne: "take i0 segments \<noteq> []" using le by auto
    have "last (take i0 segments) = take i0 segments ! (i0 - 1)"
      using ne le by (simp add: last_conv_nth)
    also have "\<dots> = segments ! (i0 - 1)" using False by simp
    finally have "value_index_end (last (take i0 segments)) = map value_index_end segments ! (i0 - 1)"
      using False le by simp
    then show ?thesis using False ne t by (simp add: windowBaseValue_def)
  qed
qed

lemma windowFinalValue_last:
  "segments \<noteq> [] \<Longrightarrow> windowFinalValue segments = value_index_end (last segments)"
  by (simp add: windowFinalValue_def last_conv_nth)

lemma foldl_collect:
  "foldl (\<lambda>(totalHours, windowHourly) s.
              let durHr = real_of_int (duration_sec s) / 3600 in
              if durHr \<le> 0 then (totalHours, windowHourly)
              else (totalHours + durHr, windowHourly @ [hourly_equiv_ret s]))
           (h, w) xs
     = (h + sliceHours xs, w @ sliceObservations xs)"
  by (induction xs arbitrary: h w) (auto simp: sliceHours_def sliceObservations_def Let_def)

lemma windowCollect_slice:
  "windowCollect segments i0 = (sliceHours (drop i0 segments), sliceObservations (drop i0 segments))"
  using foldl_collect [of 0 "[]" "drop i0 segments"] by (simp add: windowCollect_def)

lemma sliceHours_pos:
  "sliceObservations xs \<noteq> [] \<Longrightarrow> 0 < sliceHours xs"
proof (induction xs)
  case Nil
  then show ?case by (simp add: sliceObservations_def)
next
  case (Cons s xs)
  have nn: "0 \<le> sliceHours xs"
    by (auto simp: sliceHours_def intro!: sum_list_nonneg)
  show ?case
  proof (cases "duration_sec s > 0")
    case True
    then have "sliceHours (s # xs) = real_of_int (duration_sec s) / 3600 + sliceHours xs"
      by (simp add: sliceHours_def)
    then show ?thesis using True nn by simp
  next
    case False
    then show ?thesis using Cons by (simp add: sliceHours_def sliceObservations_def)
  qed
qed

text \<open>
  The quantities of a window in the words of the specification: the base value is the
  \<open>valueIndexEnd\<close> of the segment just before the slice, or 1 when the slice starts at the
  first segment; the final value is the \<open>valueIndexEnd\<close> of the last segment; the drift per
  hour is the total log return over the total of hours; the raw annual Sharpe ratio is the
  drift over the sample standard deviation of the hourly returns, times \<open>sqrt 8760\<close>.
\<close>

definition baseValueSpec :: "SegmentRow list \<Rightarrow> int \<Rightarrow> int option \<Rightarrow> real" where
  "baseValueSpec segments nowSec seconds =
     (if beforeWindow segments nowSec seconds = [] then 1
      else value_index_end (last (beforeWindow segments nowSec seconds)))"

definition finalValueSpec :: "SegmentRow list \<Rightarrow> real" where
  "finalValueSpec segments = value_index_end (last segments)"

definition sharpeAnnualRawSpec :: "SegmentRow list \<Rightarrow> int \<Rightarrow> int option \<Rightarrow> real" where
  "sharpeAnnualRawSpec segments nowSec seconds =
     (ln (finalValueSpec segments) - ln (baseValueSpec segments nowSec seconds))
       / sliceHours (windowSlice segments nowSec seconds)
       / sampleStd (sliceObservations (windowSlice segments nowSec seconds))
       * sqrt 8760"

lemma windowSlice_empty:
  "windowStart segments nowSec seconds = None \<Longrightarrow> windowSlice segments nowSec seconds = []"
  by (auto simp: windowStart_None windowSlice_def)

lemma windowSlice_nonempty:
  assumes "windowSlice segments nowSec seconds \<noteq> []"
  shows "segments \<noteq> [] \<and> (\<exists>i0. windowStart segments nowSec seconds = Some i0)"
proof -
  have "windowStart segments nowSec seconds \<noteq> None"
    using assms windowSlice_empty by blast
  moreover have "segments \<noteq> []"
    using assms by (auto simp: windowSlice_def split: option.splits)
  ultimately show ?thesis by auto
qed

lemma statsForWindow_last_updated: "last_updated_ts (statsForWindow segments nowSec seconds) = nowSec"
  by (simp add: statsForWindow_def neutralStats_def Let_def split: option.splits prod.splits)

text \<open>The row of a window in which both the base and the final value are positive.\<close>

lemma statsForWindow_positive:
  assumes "windowStart segments nowSec seconds = Some i0"
    and "0 < windowBaseValue segments i0" and "0 < windowFinalValue segments"
  shows "total_return (statsForWindow segments nowSec seconds)
           = windowFinalValue segments / windowBaseValue segments i0 - 1"
    and "sharpe_annual (statsForWindow segments nowSec seconds) =
           (let obs = sliceObservations (drop i0 segments); H = sliceHours (drop i0 segments) in
            if MIN_SHARPE_OBS \<le> length obs \<and> 0 < sampleStd obs \<and> 0 < H
            then Some ((ln (windowFinalValue segments) - ln (windowBaseValue segments i0)) / H
                         / sampleStd obs * sqrt 8760 * maturityMultiplier H)
            else None)"
  using assms
  by (auto simp: statsForWindow_def Let_def windowCollect_slice MIN_SHARPE_OBS_def)

text \<open>
  The guard of line 729: a window with a qualifying segment whose base value or final value
  index is not positive gets the neutral row.
\<close>

lemma statsForWindow_neutral:
  assumes "windowSlice segments nowSec seconds \<noteq> []"
    and "baseValueSpec segments nowSec seconds \<le> 0 \<or> finalValueSpec segments \<le> 0"
  shows "statsForWindow segments nowSec seconds = neutralStats nowSec"
proof -
  obtain i0 where ne: "segments \<noteq> []" and i0: "windowStart segments nowSec seconds = Some i0"
    using windowSlice_nonempty [OF assms(1)] by blast
  have base: "windowBaseValue segments i0 = baseValueSpec segments nowSec seconds"
    using windowBaseValue_before [OF i0] by (simp add: baseValueSpec_def)
  have fin: "windowFinalValue segments = finalValueSpec segments"
    using ne by (simp add: windowFinalValue_last finalValueSpec_def)
  show ?thesis
    using assms(2) i0 base fin by (auto simp: statsForWindow_def Let_def)
qed

subsection \<open>Sharpe ratio and maturity\<close>

text \<open>
  An example window of 24 hourly segments: one hour with return 1, then 23 flat hours.
\<close>

definition hourSegment :: "real \<Rightarrow> SegmentRow" where
  "hourSegment r =
     \<lparr>start_ts = 0, end_ts = 3600, duration_sec = 3600, raw_return = r, hourly_equiv_ret = r,
      value_index_end = 2\<rparr>"

definition dayOfSegments :: "SegmentRow list" where
  "dayOfSegments = hourSegment 1 # replicate 23 (hourSegment 0)"

lemma foldl_replicate_add:
  "foldl (\<lambda>acc x. acc + g x) (a :: real) (replicate n c) = a + real n * g c"
  by (induction n arbitrary: a) (simp_all add: algebra_simps)

text \<open>
  Claim C5 as stated fails for a window whose final value index is not positive: with 24
  hourly observations and a positive sample standard deviation the row written is the
  neutral one, and \<open>sharpeAnnual\<close> is null.
\<close>

theorem sharpeAnnual_zero_index_counterexample:
  "24 \<le> length (sliceObservations
               (windowSlice (map (\<lambda>s. s\<lparr>value_index_end := 0\<rparr>) dayOfSegments) 3600 None))
   \<and> 0 < sampleStd (sliceObservations
               (windowSlice (map (\<lambda>s. s\<lparr>value_index_end := 0\<rparr>) dayOfSegments) 3600 None))
   \<and> sharpe_annual (statsForWindow (map (\<lambda>s. s\<lparr>value_index_end := 0\<rparr>) dayOfSegments) 3600 None)
       = None"
proof -
  have obs: "sliceObservations
               (windowSlice (map (\<lambda>s. s\<lparr>value_index_end := 0\<rparr>) dayOfSegments) 3600 None)
             = 1 # replicate 23 0"
    by (simp add: sliceObservations_def windowSlice_def dayOfSegments_def hourSegment_def)
  have mean: "meanOf (1 # replicate 23 0) = 1 / 24"
    using foldl_replicate_add [of "\<lambda>x. x" 1 23 0] by (simp add: meanOf_def)
  have "sampleStd (1 # replicate 23 0)
          = sqrt (((1 - 1 / 24) * (1 - 1 / 24) + 23 * ((1 / 24) * (1 / 24))) / 23)"
    using foldl_replicate_add [of "\<lambda>x. (x - 1 / 24) * (x - 1 / 24)" "(1 - 1 / 24) * (1 - 1 / 24)" 23 0]
    by (simp add: sampleStd_def mean)
  then have std: "0 < sampleStd (1 # replicate 23 0)"
    by simp
  have fin: "windowFinalValue (map (\<lambda>s. s\<lparr>value_index_end := 0\<rparr>) dayOfSegments) = 0"
    by (simp add: windowFinalValue_def dayOfSegments_def hourSegment_def)
  have "sharpe_annual (statsForWindow (map (\<lambda>s. s\<lparr>value_index_end := 0\<rparr>) dayOfSegments) 3600 None)
          = None"
    using fin by (simp add: statsForWindow_def windowStart_def Let_def neutralStats_def)
  then show ?thesis
    using obs std by simp
qed

text \<open>
  Claim C5, amended. The row written for a window has a null \<open>sharpeAnnual\<close> whenever the
  window has fewer than 24 hourly observations. With at least 24 observations, a positive
  sample standard deviation, and a base value and a final value index that are both positive,
  \<open>sharpeAnnual\<close> is \<open>(mu / sigma) * sqrt 8760\<close> times \<open>clamp(totalHours / 720, 0, 1)\<close>,
  where \<open>mu\<close> is the total log return over the total of hours; with 24 total hours the
  factor is \<open>24 / 720\<close>. When the window has a qualifying segment and its base value or
  its final value index is not positive, the row is the neutral one (total return 0, maximal
  drawdown 0, Sharpe ratio and volatilities null).
\<close>

theorem sharpeAnnual_maturity:
  "(length (sliceObservations (windowSlice segments nowSec seconds)) < 24 \<longrightarrow>
      sharpe_annual (statsForWindow segments nowSec seconds) = None)
   \<and> (24 \<le> length (sliceObservations (windowSlice segments nowSec seconds))
        \<and> 0 < sampleStd (sliceObservations (windowSlice segments nowSec seconds))
        \<and> 0 < baseValueSpec segments nowSec seconds \<and> 0 < finalValueSpec segments \<longrightarrow>
      sharpe_annual (statsForWindow segments nowSec seconds) =
        Some (sharpeAnnualRawSpec segments nowSec seconds
                * max 0 (min 1 (sliceHours (windowSlice segments nowSec seconds) / 720)))
      \<and> (sliceHours (windowSlice segments nowSec seconds) = 24 \<longrightarrow>
           sharpe_annual (statsForWindow segments nowSec seconds) =
             Some (sharpeAnnualRawSpec segments nowSec seconds * (24 / 720))))
   \<and> (windowSlice segments nowSec seconds \<noteq> []
        \<and> (baseValueSpec segments nowSec seconds \<le> 0 \<or> finalValueSpec segments \<le> 0) \<longrightarrow>
      statsForWindow segments nowSec seconds =
        \<lparr>last_updated_ts = nowSec, sharpe_annual = None, vol_annual = None,
         vol_hourly = None, total_return = 0, max_drawdown = 0\<rparr>)"
proof (intro conjI impI)
  assume "windowSlice segments nowSec seconds \<noteq> []
        \<and> (baseValueSpec segments nowSec seconds \<le> 0 \<or> finalValueSpec segments \<le> 0)"
  then show "statsForWindow segments nowSec seconds =
        \<lparr>last_updated_ts = nowSec, sharpe_annual = None, vol_annual = None,
         vol_hourly = None, total_return = 0, max_drawdown = 0\<rparr>"
    using statsForWindow_neutral [of segments nowSec seconds] by (simp add: neutralStats_def)
next
  assume few: "length (sliceObservations (windowSlice segments nowSec seconds)) < 24"
  show "sharpe_annual (statsForWindow segments nowSec seconds) = None"
  proof (cases "windowStart segments nowSec seconds")
    case None
    then show ?thesis by (simp add: statsForWindow_def neutralStats_def)
  next
    case (Some i0)
    have sl: "drop i0 segments = windowSlice segments nowSec seconds"
      using windowStart_Some [OF Some] by simp
    show ?thesis
      using Some few
      by (auto simp: statsForWindow_def Let_def windowCollect_slice sl MIN_SHARPE_OBS_def
          neutralStats_def)
  qed
next
  assume h: "24 \<le> length (sliceObservations (windowSlice segments nowSec seconds))
      \<and> 0 < sampleStd (sliceObservations (windowSlice segments nowSec seconds))
      \<and> 0 < baseValueSpec segments nowSec seconds \<and> 0 < finalValueSpec segments"
  then have obs: "sliceObservations (windowSlice segments nowSec seconds) \<noteq> []"
    by auto
  then have "windowSlice segments nowSec seconds \<noteq> []"
    by (auto simp: sliceObservations_def)
  then obtain i0 where ne: "segments \<noteq> []" and i0: "windowStart segments nowSec seconds = Some i0"
    using windowSlice_nonempty by blast
  have sl: "drop i0 segments = windowSlice segments nowSec seconds"
    using windowStart_Some [OF i0] by simp
  have base: "windowBaseValue segments i0 = baseValueSpec segments nowSec seconds"
    using windowBaseValue_before [OF i0] by (simp add: baseValueSpec_def)
  have fin: "windowFinalValue segments = finalValueSpec segments"
    using ne by (simp add: windowFinalValue_last finalValueSpec_def)
  have H: "0 < sliceHours (windowSlice segments nowSec seconds)"
    using obs by (rule sliceHours_pos)
  have main: "sharpe_annual (statsForWindow segments nowSec seconds) =
        Some (sharpeAnnualRawSpec segments nowSec seconds
                * maturityMultiplier (sliceHours (windowSlice segments nowSec seconds)))"
    using statsForWindow_positive(2) [OF i0] h H base fin
    by (simp add: sl Let_def MIN_SHARPE_OBS_def sharpeAnnualRawSpec_def)
  show "sharpe_annual (statsForWindow segments nowSec seconds) =
        Some (sharpeAnnualRawSpec segments nowSec seconds
                * max 0 (min 1 (sliceHours (windowSlice segments nowSec seconds) / 720)))"
    using main H by (simp add: maturityMultiplier_def SHARPE_MATURITY_HOURS_def)
  show "sharpe_annual (statsForWindow segments nowSec seconds) =
             Some (sharpeAnnualRawSpec segments nowSec seconds * (24 / 720))"
    if "sliceHours (windowSlice segments nowSec seconds) = 24"
    using main that by (simp add: maturityMultiplier_def SHARPE_MATURITY_HOURS_def)
qed

theorem sharpeAnnual_maturity_witness:
  "24 \<le> length (sliceObservations (windowSlice dayOfSegments 3600 None))
   \<and> 0 < sampleStd (sliceObservations (windowSlice dayOfSegments 3600 None))
   \<and> 0 < baseValueSpec dayOfSegments 3600 None \<and> 0 < finalValueSpec dayOfSegments
   \<and> sliceHours (windowSlice dayOfSegments 3600 None) = 24
   \<and> sharpe_annual (statsForWindow dayOfSegments 3600 None) =
        Some (sharpeAnnualRawSpec dayOfSegments 3600 None * (24 / 720))
   \<and> length (sliceObservations (windowSlice (hourSegment 1 # replicate 22 (hourSegment 0)) 3600 None)) = 23
   \<and> 0 < sampleStd (sliceObservations (windowSlice (hourSegment 1 # replicate 22 (hourSegment 0)) 3600 None))
   \<and> sharpe_annual (statsForWindow (hourSegment 1 # replicate 22 (hourSegment 0)) 3600 None) = None
   \<and> windowSlice [hourSegment 0 \<lparr>end_ts := 100, value_index_end := 0\<rparr>, hourSegment 0] 3600 (Some 1000) \<noteq> []
   \<and> baseValueSpec [hourSegment 0 \<lparr>end_ts := 100, value_index_end := 0\<rparr>, hourSegment 0] 3600 (Some 1000) \<le> 0
   \<and> statsForWindow [hourSegment 0 \<lparr>end_ts := 100, value_index_end := 0\<rparr>, hourSegment 0] 3600 (Some 1000) =
        \<lparr>last_updated_ts = 3600, sharpe_annual = None, vol_annual = None,
         vol_hourly = None, total_return = 0, max_drawdown = 0\<rparr>"
proof -
  have obs: "sliceObservations (windowSlice dayOfSegments 3600 None) = 1 # replicate 23 0"
    by (simp add: sliceObservations_def windowSlice_def dayOfSegments_def hourSegment_def)
  have obs': "sliceObservations (windowSlice (hourSegment 1 # replicate 22 (hourSegment 0)) 3600 None) = 1 # replicate 22 0"
    by (simp add: sliceObservations_def windowSlice_def hourSegment_def)
  have hours: "sliceHours (windowSlice dayOfSegments 3600 None) = 24"
    by (simp add: sliceHours_def windowSlice_def dayOfSegments_def hourSegment_def
        sum_list_replicate)
  have mean: "meanOf (1 # replicate 23 0) = 1 / 24"
    using foldl_replicate_add [of "\<lambda>x. x" 1 23 0] by (simp add: meanOf_def)
  have "sampleStd (1 # replicate 23 0) = sqrt (((1 - 1 / 24) * (1 - 1 / 24) + 23 * ((1 / 24) * (1 / 24))) / 23)"
    using foldl_replicate_add [of "\<lambda>x. (x - 1 / 24) * (x - 1 / 24)" "(1 - 1 / 24) * (1 - 1 / 24)" 23 0]
    by (simp add: sampleStd_def mean)
  then have std: "0 < sampleStd (sliceObservations (windowSlice dayOfSegments 3600 None))"
    by (simp add: obs)
  have mean': "meanOf (1 # replicate 22 0) = 1 / 23"
    using foldl_replicate_add [of "\<lambda>x. x" 1 22 0] by (simp add: meanOf_def)
  have "sampleStd (1 # replicate 22 0) = sqrt (((1 - 1 / 23) * (1 - 1 / 23) + 22 * ((1 / 23) * (1 / 23))) / 22)"
    using foldl_replicate_add [of "\<lambda>x. (x - 1 / 23) * (x - 1 / 23)" "(1 - 1 / 23) * (1 - 1 / 23)" 22 0]
    by (simp add: sampleStd_def mean')
  then have std': "0 < sampleStd (sliceObservations (windowSlice (hourSegment 1 # replicate 22 (hourSegment 0)) 3600 None))"
    by (simp add: obs')
  have base: "0 < baseValueSpec dayOfSegments 3600 None"
    by (simp add: baseValueSpec_def beforeWindow_def)
  have fin: "0 < finalValueSpec dayOfSegments"
    by (simp add: finalValueSpec_def dayOfSegments_def hourSegment_def)
  have len: "24 \<le> length (sliceObservations (windowSlice dayOfSegments 3600 None))"
    by (simp add: obs)
  have len': "length (sliceObservations (windowSlice (hourSegment 1 # replicate 22 (hourSegment 0)) 3600 None)) = 23"
    by (simp add: obs')
  have sl: "windowSlice [hourSegment 0 \<lparr>end_ts := 100, value_index_end := 0\<rparr>, hourSegment 0] 3600 (Some 1000) \<noteq> []"
    by (simp add: windowSlice_def dayOfSegments_def hourSegment_def)
  have base0: "baseValueSpec [hourSegment 0 \<lparr>end_ts := 100, value_index_end := 0\<rparr>, hourSegment 0] 3600 (Some 1000) \<le> 0"
    by (simp add: baseValueSpec_def beforeWindow_def dayOfSegments_def hourSegment_def)
  show ?thesis
    using sharpeAnnual_maturity [of dayOfSegments 3600 None]
      sharpeAnnual_maturity [of "hourSegment 1 # replicate 22 (hourSegment 0)" 3600 None]
      sharpeAnnual_maturity [of "[hourSegment 0 \<lparr>end_ts := 100, value_index_end := 0\<rparr>, hourSegment 0]" 3600 "Some 1000"]
      len len' std std' base fin hours sl base0
    by simp
qed

subsection \<open>A row for every window\<close>

text \<open>
  Claim C6 as stated fails for a strategy without segments: the pass returns before the loop
  over the windows, writes no row, and a row written earlier stays as it was.
\<close>

theorem recomputeStatsForStrategy_no_segments_counterexample:
  "recomputeStatsForStrategy Map.empty 1 [] 1000 (1, ''ALL'') = None
   \<and> recomputeStatsForStrategy (Map.empty((1, ''1W'') \<mapsto> neutralStats 5)) 1 [] 1000 (1, ''1W'')
       = Some (neutralStats 5)
   \<and> last_updated_ts (neutralStats 5) \<noteq> 1000"
  by (simp add: recomputeStatsForStrategy_def neutralStats_def)

lemma recomputeStatsForStrategy_rows:
  assumes "segments \<noteq> []"
  shows "recomputeStatsForStrategy stats strategyId segments nowSec (sid, w) =
           (if sid = strategyId \<and> w \<in> fst ` set STAT_WINDOWS
            then Some (statsForWindow segments nowSec (the (map_of STAT_WINDOWS w)))
            else stats (sid, w))"
  using assms
  by (auto simp: recomputeStatsForStrategy_def STAT_WINDOWS_def)

text \<open>
  Claim C6, amended. For a strategy that has at least one segment, a statistics pass writes
  the row of each of the six windows 1W, 1M, 3M, 6M, 1Y and ALL, stamped with the time of
  the pass; when no segment qualifies for the window the row is neutral (total return 0,
  maximal drawdown 0, Sharpe ratio and volatilities null). For a strategy without segments
  the pass writes nothing.
\<close>

theorem recomputeStatsForStrategy_writes_all_windows:
  assumes "segments \<noteq> []"
  shows "map fst STAT_WINDOWS = [''1W'', ''1M'', ''3M'', ''6M'', ''1Y'', ''ALL'']
       \<and> (\<forall>(winId, seconds) \<in> set STAT_WINDOWS.
            recomputeStatsForStrategy stats strategyId segments nowSec (strategyId, winId)
              = Some (statsForWindow segments nowSec seconds)
            \<and> last_updated_ts (statsForWindow segments nowSec seconds) = nowSec
            \<and> (windowSlice segments nowSec seconds = [] \<longrightarrow>
                 statsForWindow segments nowSec seconds =
                   \<lparr>last_updated_ts = nowSec, sharpe_annual = None, vol_annual = None,
                    vol_hourly = None, total_return = 0, max_drawdown = 0\<rparr>))
       \<and> recomputeStatsForStrategy stats strategyId [] nowSec = stats"
proof (intro conjI ballI)
  show "map fst STAT_WINDOWS = [''1W'', ''1M'', ''3M'', ''6M'', ''1Y'', ''ALL'']"
    by (simp add: STAT_WINDOWS_def)
  show "recomputeStatsForStrategy stats strategyId [] nowSec = stats"
    by (simp add: recomputeStatsForStrategy_def)
next
  fix e assume e: "e \<in> set STAT_WINDOWS"
  obtain winId seconds where p: "e = (winId, seconds)" by (cases e)
  have m: "map_of STAT_WINDOWS winId = Some seconds"
    using e p by (auto simp: STAT_WINDOWS_def)
  have w: "winId \<in> fst ` set STAT_WINDOWS"
    using e p by force
  have row: "recomputeStatsForStrategy stats strategyId segments nowSec (strategyId, winId)
              = Some (statsForWindow segments nowSec seconds)"
    using recomputeStatsForStrategy_rows [OF assms, of stats strategyId nowSec strategyId winId] m w
    by simp
  have neutral: "statsForWindow segments nowSec seconds = neutralStats nowSec"
    if "windowSlice segments nowSec seconds = []"
  proof (cases "windowStart segments nowSec seconds")
    case None
    then show ?thesis by (simp add: statsForWindow_def)
  next
    case (Some i0)
    then have "drop i0 segments = []" and "i0 \<le> length segments"
      using windowStart_Some [OF Some] that by simp_all
    moreover have "i0 < length segments"
      using Some findIndex_Some [of _ segments i0] assms
      by (cases seconds) (auto simp: windowStart_def)
    ultimately show ?thesis by simp
  qed
  show "case e of (winId, seconds) \<Rightarrow>
          recomputeStatsForStrategy stats strategyId segments nowSec (strategyId, winId)
              = Some (statsForWindow segments nowSec seconds)
            \<and> last_updated_ts (statsForWindow segments nowSec seconds) = nowSec
            \<and> (windowSlice segments nowSec seconds = [] \<longrightarrow>
                 statsForWindow segments nowSec seconds =
                   \<lparr>last_updated_ts = nowSec, sharpe_annual = None, vol_annual = None,
                    vol_hourly = None, total_return = 0, max_drawdown = 0\<rparr>)"
    using row neutral p by (simp add: statsForWindow_last_updated neutralStats_def)
qed

theorem recomputeStatsForStrategy_writes_all_windows_witness:
  "[hourSegment 0] \<noteq> []
   \<and> (''1W'', Some (7 * 24 * 3600)) \<in> set STAT_WINDOWS
   \<and> windowSlice [hourSegment 0] 1000000 (Some (7 * 24 * 3600)) = []
   \<and> recomputeStatsForStrategy Map.empty 1 [hourSegment 0] 1000000 (1, ''1W'')
       = Some \<lparr>last_updated_ts = 1000000, sharpe_annual = None, vol_annual = None,
               vol_hourly = None, total_return = 0, max_drawdown = 0\<rparr>"
proof -
  have ne: "[hourSegment 0] \<noteq> []"
    by simp
  have w: "(''1W'', Some (7 * 24 * 3600)) \<in> set STAT_WINDOWS"
    by (simp add: STAT_WINDOWS_def)
  have sl: "windowSlice [hourSegment 0] 1000000 (Some (7 * 24 * 3600)) = []"
    by (simp add: windowSlice_def hourSegment_def)
  show ?thesis
    using recomputeStatsForStrategy_writes_all_windows [OF ne, of Map.empty 1 1000000] w sl
    by fastforce
qed

section \<open>The replay engine (segments.ts)\<close>

subsection \<open>Rows and tables\<close>

record StrategyRow =
  strat_id :: int
  trader_address :: string
  strategy_name :: string
  first_signal_ts :: int
  last_signal_ts :: int
  last_value_index :: real
  last_segment_end_ts :: "int option"

record SignalRow =
  asset_symbol :: string
  sig_direction :: int
  sig_leverage :: real
  weight_raw :: real
  timestamp :: int

record HoldingRow =
  h_asset_symbol :: string
  h_value :: real
  h_direction :: int
  h_leverage :: real
  is_usd :: int

record PriceRow =
  p_asset_symbol :: string
  p_timestamp :: int
  price_usd :: real

record Position =
  pos_asset :: string
  percent :: real
  pos_direction :: string
  pos_leverage :: real

text \<open>
  The tables the engine reads and writes. A signal is stored with the trader and the strategy
  it belongs to; a segment and a holding with the id of their strategy; the snapshots are a
  map from their unique key \<open>(strategy_id, signal_ts)\<close> to the positions (the JSON text of the
  column is the list it encodes). Tables with insertions are lists in the order of insertion.
\<close>

record db =
  signals :: "(string \<times> string \<times> SignalRow) list"
  strategies :: "StrategyRow list"
  prices :: "PriceRow list"
  strategy_segments :: "(int \<times> SegmentRow) list"
  strategy_holdings :: "(int \<times> HoldingRow) list"
  strategy_position_snapshots :: "int \<times> int \<rightharpoonup> Position list"

text \<open>\<open>getSignalsForStrategyStmt\<close>: the signals of a strategy, \<open>ORDER BY timestamp ASC\<close>.\<close>

definition getSignalsForStrategy :: "db \<Rightarrow> string \<Rightarrow> string \<Rightarrow> SignalRow list" where
  "getSignalsForStrategy d trader name =
     sort_key timestamp
       (map (\<lambda>(t, n, s). s) (filter (\<lambda>(t, n, s). t = trader \<and> n = name) (signals d)))"

text \<open>\<open>insertSegmentStmt\<close>: \<open>INSERT OR IGNORE\<close> under the unique key \<open>(strategy_id, start_ts, end_ts)\<close>.\<close>

definition insertSegment :: "(int \<times> SegmentRow) list \<Rightarrow> int \<Rightarrow> SegmentRow \<Rightarrow> (int \<times> SegmentRow) list" where
  "insertSegment tbl sid row =
     (if list_ex (\<lambda>(sid', r). sid' = sid \<and> start_ts r = start_ts row \<and> end_ts r = end_ts row) tbl
      then tbl else tbl @ [(sid, row)])"

text \<open>\<open>updateStrategyAfterSegmentsStmt\<close>.\<close>

definition updateStrategyAfterSegments :: "StrategyRow list \<Rightarrow> real \<Rightarrow> int \<Rightarrow> int \<Rightarrow> StrategyRow list" where
  "updateStrategyAfterSegments tbl valueIndex tEnd sid =
     map (\<lambda>r. if strat_id r = sid
               then r\<lparr>last_value_index := valueIndex, last_segment_end_ts := Some tEnd\<rparr> else r) tbl"

text \<open>\<open>upsertHoldingStmt\<close>: insert, or overwrite the row of the key \<open>(strategy_id, asset_symbol)\<close>.\<close>

definition upsertHolding :: "(int \<times> HoldingRow) list \<Rightarrow> int \<Rightarrow> HoldingRow \<Rightarrow> (int \<times> HoldingRow) list" where
  "upsertHolding tbl sid row =
     (if list_ex (\<lambda>(sid', r). sid' = sid \<and> h_asset_symbol r = h_asset_symbol row) tbl
      then map (\<lambda>(sid', r). if sid' = sid \<and> h_asset_symbol r = h_asset_symbol row
                              then (sid', row) else (sid', r)) tbl
      else tbl @ [(sid, row)])"

subsection \<open>Position snapshots\<close>

text \<open>
  \<open>recordPositionSnapshot\<close> (lines 442-466): the positions built from the buckets, and the
  upsert, which is skipped when the total is not positive or no position is left.
\<close>

definition positionOf :: "metas \<Rightarrow> real \<Rightarrow> string \<times> real \<Rightarrow> Position option" where
  "positionOf meta tot = (\<lambda>(assetRaw, v).
     let asset = toUpperCase assetRaw in
     if \<not> isSupportedAsset asset then None
     else
       let usd = isUsdAsset asset;
           m = getOr meta asset \<lparr>direction = 0, leverage = 1, isUsd = usd\<rparr>
       in Some \<lparr>pos_asset = asset,
                percent = v / tot * 100,
                pos_direction = (if usd then ''CASH'' else if direction m < 0 then ''SHORT'' else ''LONG''),
                pos_leverage = (if usd then 1 else if leverage m = 0 then 1 else leverage m)\<rparr>)"

definition snapshotPositions :: "buckets \<Rightarrow> metas \<Rightarrow> real \<Rightarrow> Position list" where
  "snapshotPositions b meta tot =
     List.map_filter (positionOf meta tot) (filter (\<lambda>(a, v). v > 0) b)"

definition recordPositionSnapshot ::
  "(int \<times> int \<rightharpoonup> Position list) \<Rightarrow> int \<Rightarrow> buckets \<Rightarrow> metas \<Rightarrow> int \<Rightarrow> (int \<times> int \<rightharpoonup> Position list)" where
  "recordPositionSnapshot snaps sid b meta signalTs =
     (let total = sumBuckets b in
      if total \<le> 0 then snaps
      else
        let positions = snapshotPositions b meta total in
        if length positions = 0 then snaps
        else snaps((sid, signalTs) \<mapsto> positions))"

subsection \<open>Applying the signals of one timestamp\<close>

text \<open>
  The signals are consumed in order: the index \<open>sigIdx\<close> of the program is the number of
  signals already taken from the list, and the model keeps the list of the signals from
  \<open>sigIdx\<close> on. The inner loops of lines 518-529 and 582-593 apply every signal at the head
  of that list that carries the timestamp \<open>t\<close>.
\<close>

fun applySameTs ::
  "int \<Rightarrow> buckets \<times> metas \<Rightarrow> SignalRow list \<Rightarrow> (buckets \<times> metas) \<times> SignalRow list" where
  "applySameTs t bm [] = (bm, [])"
| "applySameTs t bm (s # rest) =
     (if timestamp s = t
      then applySameTs t
             (applySignalTargetPct (fst bm) (snd bm) (asset_symbol s) (sig_direction s)
                (sig_leverage s) (weight_raw s))
             rest
      else (bm, s # rest))"

lemma applySameTs_length: "length (snd (applySameTs t bm sigs)) \<le> length sigs"
proof (induction sigs arbitrary: bm)
  case Nil
  show ?case by simp
next
  case (Cons s rest)
  show ?case
  proof (cases "timestamp s = t")
    case True
    have "length (snd (applySameTs t
            (applySignalTargetPct (fst bm) (snd bm) (asset_symbol s) (sig_direction s)
               (sig_leverage s) (weight_raw s)) rest)) \<le> length rest"
      by (rule Cons.IH)
    then show ?thesis using True by simp
  next
    case False
    then show ?thesis by simp
  qed
qed

text \<open>The loop of lines 514-532: the signals up to and including \<open>tStart\<close>.\<close>

function preSignals ::
  "int \<Rightarrow> int \<Rightarrow> buckets \<times> metas \<Rightarrow> SignalRow list \<Rightarrow> (int \<times> int \<rightharpoonup> Position list)
     \<Rightarrow> (buckets \<times> metas) \<times> SignalRow list \<times> (int \<times> int \<rightharpoonup> Position list)" where
  "preSignals tStart sid bm [] snaps = (bm, [], snaps)"
| "preSignals tStart sid bm (s # rest) snaps =
     (if timestamp s \<le> tStart
      then (let r = applySameTs (timestamp s) bm (s # rest) in
            preSignals tStart sid (fst r) (snd r)
              (recordPositionSnapshot snaps sid (fst (fst r)) (snd (fst r)) (timestamp s)))
      else (bm, s # rest, snaps))"
  by pat_completeness auto
termination
proof (relation "measure (\<lambda>(tStart, sid, bm, sigs, snaps). length sigs)")
  show "wf (measure (\<lambda>(tStart, sid, bm, sigs, snaps). length sigs))"
    by simp
next
  fix tStart sid :: int and bm :: "buckets \<times> metas" and s rest
    and snaps :: "int \<times> int \<rightharpoonup> Position list" and r
  assume "r = applySameTs (timestamp s) bm (s # rest)"
  then have "length (snd r) \<le> length rest"
    by (simp add: applySameTs_length)
  then show "((tStart, sid, fst r, snd r,
               recordPositionSnapshot snaps sid (fst (fst r)) (snd (fst r)) (timestamp s)),
              (tStart, sid, bm, s # rest, snaps))
             \<in> measure (\<lambda>(tStart, sid, bm, sigs, snaps). length sigs)"
    by simp
qed

text \<open>
  The loop of lines 573-596: the signals inside \<open>(tStart, tEnd]\<close>, each after a drift from
  the cursor to its timestamp.
\<close>

function intraSignals ::
  "(string \<times> PriceSeries) list \<Rightarrow> int \<Rightarrow> int \<Rightarrow> int \<Rightarrow> buckets \<times> metas \<Rightarrow> SignalRow list
     \<Rightarrow> (int \<times> int \<rightharpoonup> Position list)
     \<Rightarrow> int \<times> (buckets \<times> metas) \<times> SignalRow list \<times> (int \<times> int \<rightharpoonup> Position list)" where
  "intraSignals aps tEnd sid cursorTs bm [] snaps = (cursorTs, bm, [], snaps)"
| "intraSignals aps tEnd sid cursorTs bm (s # rest) snaps =
     (if timestamp s \<le> tEnd
      then (let sigTs = timestamp s;
                drifted = (if sigTs > cursorTs
                           then (drift aps (snd bm) cursorTs sigTs (fst bm), snd bm) else bm);
                cursor' = (if sigTs > cursorTs then sigTs else cursorTs);
                r = applySameTs sigTs drifted (s # rest)
            in intraSignals aps tEnd sid cursor' (fst r) (snd r)
                 (recordPositionSnapshot snaps sid (fst (fst r)) (snd (fst r)) sigTs))
      else (cursorTs, bm, s # rest, snaps))"
  by pat_completeness auto
termination
proof (relation "measure (\<lambda>(aps, tEnd, sid, cursorTs, bm, sigs, snaps). length sigs)")
  show "wf (measure (\<lambda>(aps, tEnd, sid, cursorTs, bm, sigs, snaps). length sigs))"
    by simp
next
  fix aps :: "(string \<times> PriceSeries) list" and tEnd sid cursorTs :: int
    and bm :: "buckets \<times> metas" and s rest and snaps :: "int \<times> int \<rightharpoonup> Position list"
    and sigTs drifted cursor' r
  assume "sigTs = timestamp s" and "r = applySameTs sigTs drifted (s # rest)"
  then have "length (snd r) \<le> length rest"
    by (simp add: applySameTs_length)
  then show "((aps, tEnd, sid, cursor', fst r, snd r,
               recordPositionSnapshot snaps sid (fst (fst r)) (snd (fst r)) sigTs),
              (aps, tEnd, sid, cursorTs, bm, s # rest, snaps))
             \<in> measure (\<lambda>(aps, tEnd, sid, cursorTs, bm, sigs, snaps). length sigs)"
    by simp
qed

subsection \<open>One hour of the replay\<close>

text \<open>
  The state of the replay inside the transaction: the buckets and their meta, the signals not
  yet applied, the value index, and the tables.
\<close>

record replay =
  rp_buckets :: buckets
  rp_meta :: metas
  rp_sigs :: "SignalRow list"
  rp_valueIndex :: real
  rp_db :: db

text \<open>The body of the loop over \<open>k\<close> (lines 501-619) for the pair \<open>(tStart, tEnd)\<close>.\<close>

definition hourStep :: "(string \<times> PriceSeries) list \<Rightarrow> StrategyRow \<Rightarrow> int \<times> int \<Rightarrow> replay \<Rightarrow> replay" where
  "hourStep aps strat = (\<lambda>(tStart, tEnd) st.
     if tEnd \<le> tStart then st
     else if tEnd \<le> first_signal_ts strat then st
     else
       let durationSec = tEnd - tStart;
           durationHours = real_of_int durationSec / 3600;
           (bm1, sigs1, snaps1) =
             preSignals tStart (strat_id strat) (rp_buckets st, rp_meta st) (rp_sigs st)
               (strategy_position_snapshots (rp_db st));
           equityStart = sumBuckets (fst bm1)
       in
       if equityStart \<le> 0
       then st\<lparr>rp_buckets := fst bm1, rp_meta := snd bm1, rp_sigs := sigs1,
               rp_db := (rp_db st)
                 \<lparr>strategies :=
                    updateStrategyAfterSegments (strategies (rp_db st)) (rp_valueIndex st) tEnd
                      (strat_id strat),
                  strategy_segments :=
                    insertSegment (strategy_segments (rp_db st)) (strat_id strat)
                      \<lparr>start_ts = tStart, end_ts = tEnd, duration_sec = durationSec,
                       raw_return = 0, hourly_equiv_ret = 0,
                       value_index_end = rp_valueIndex st\<rparr>,
                  strategy_position_snapshots := snaps1\<rparr>\<rparr>
       else
         let (cursorTs, bm2, sigs2, snaps2) =
               intraSignals aps tEnd (strat_id strat) tStart bm1 sigs1 snaps1;
             b3 = drift aps (snd bm2) cursorTs tEnd (fst bm2);
             equityEnd = sumBuckets b3;
             rawReturn = equityEnd / equityStart - 1;
             valueIndex = rp_valueIndex st * (1 + rawReturn);
             hourlyEquiv = (if durationHours > 0 then rawReturn / durationHours else 0)
         in \<lparr>rp_buckets = b3, rp_meta = snd bm2, rp_sigs = sigs2, rp_valueIndex = valueIndex,
             rp_db = (rp_db st)
               \<lparr>strategies :=
                  updateStrategyAfterSegments (strategies (rp_db st)) valueIndex tEnd
                    (strat_id strat),
                strategy_segments :=
                  insertSegment (strategy_segments (rp_db st)) (strat_id strat)
                    \<lparr>start_ts = tStart, end_ts = tEnd, duration_sec = durationSec,
                     raw_return = rawReturn, hourly_equiv_ret = hourlyEquiv,
                     value_index_end = valueIndex\<rparr>,
                strategy_position_snapshots := snaps2\<rparr>\<rparr>)"

subsection \<open>One pass for one strategy\<close>

text \<open>The index of the first pair of the grid to compute (lines 368-400); \<open>None\<close> is -1.\<close>

definition startIndex :: "StrategyRow \<Rightarrow> int list \<Rightarrow> nat option" where
  "startIndex strat allTimestamps =
     (case last_segment_end_ts strat of
        None \<Rightarrow>
          (case findIndex (\<lambda>(t0, t1). t0 \<le> first_signal_ts strat \<and> first_signal_ts strat < t1)
                  (zip allTimestamps (tl allTimestamps)) of
             Some i \<Rightarrow> Some i
           | None \<Rightarrow> if length allTimestamps \<ge> 2 then Some 0 else None)
      | Some lastSegEnd \<Rightarrow> findIndex (\<lambda>t. t \<ge> lastSegEnd) (butlast allTimestamps))"

text \<open>The holdings read back when the pass resumes (lines 430-440).\<close>

definition loadHoldings :: "(int \<times> HoldingRow) list \<Rightarrow> int \<Rightarrow> buckets \<times> metas" where
  "loadHoldings tbl sid =
     foldl (\<lambda>(b, m) r.
              (AList.update (toUpperCase (h_asset_symbol r)) (h_value r) b,
               AList.update (toUpperCase (h_asset_symbol r))
                 \<lparr>direction = h_direction r, leverage = h_leverage r, isUsd = (is_usd r \<noteq> 0)\<rparr> m))
           ([], []) (map snd (filter (\<lambda>(s, r). s = sid) tbl))"

text \<open>
  The loop of lines 476-497: the signals up to \<open>lastSegEnd\<close> are skipped, and each of them
  sets or drops the meta of its asset.
\<close>

fun fastForward :: "int \<Rightarrow> metas \<Rightarrow> SignalRow list \<Rightarrow> metas \<times> SignalRow list" where
  "fastForward lastSegEnd m [] = (m, [])"
| "fastForward lastSegEnd m (s # rest) =
     (if timestamp s \<le> lastSegEnd
      then fastForward lastSegEnd
             (if isSupportedAsset (asset_symbol s)
              then (let asset = toUpperCase (asset_symbol s); usd = isUsdAsset asset in
                    if clampPct (weight_raw s) \<le> 0 then AList.delete asset m
                    else AList.update asset
                           \<lparr>direction = signalDir usd (sig_direction s),
                            leverage = signalLev usd (sig_leverage s), isUsd = usd\<rparr> m)
              else m)
             rest
      else (m, s # rest))"

text \<open>The holdings written at the end of the transaction (lines 622-634).\<close>

definition persistHoldings ::
  "(int \<times> HoldingRow) list \<Rightarrow> int \<Rightarrow> buckets \<Rightarrow> metas \<Rightarrow> (int \<times> HoldingRow) list" where
  "persistHoldings tbl sid b meta =
     foldl (\<lambda>t (asset, v).
              if v \<le> 0 then t
              else
                let m = getOr meta (toUpperCase asset)
                          \<lparr>direction = (if isUsdAsset asset then 0 else 1), leverage = 1,
                           isUsd = isUsdAsset asset\<rparr>
                in upsertHolding t sid
                     \<lparr>h_asset_symbol = toUpperCase asset, h_value = v, h_direction = direction m,
                      h_leverage = leverage m, is_usd = (if isUsd m then 1 else 0)\<rparr>)
           (filter (\<lambda>(s, r). s \<noteq> sid) tbl) b"

text \<open>
  \<open>extendSegmentsForStrategy\<close>. With an empty grid \<open>maxTs\<close> is \<open>undefined\<close> and the test of
  line 363 is false. The value index starts from \<open>strat.last_value_index || 1.0\<close>.
\<close>

definition extendSegmentsForStrategy ::
  "db \<Rightarrow> StrategyRow \<Rightarrow> int list \<Rightarrow> (string \<times> PriceSeries) list \<Rightarrow> db" where
  "extendSegmentsForStrategy d strat allTimestamps aps =
     (let sigs = getSignalsForStrategy d (trader_address strat) (strategy_name strat) in
      if length sigs = 0 then d
      else if allTimestamps \<noteq> [] \<and> last allTimestamps \<le> first_signal_ts strat then d
      else
        case startIndex strat allTimestamps of
          None \<Rightarrow> d
        | Some startIdx \<Rightarrow>
            if startIdx \<ge> length allTimestamps - 1 then d
            else
              let valueIndex = (if last_value_index strat = 0 then 1 else last_value_index strat);
                  (b0, m0) =
                    (case last_segment_end_ts strat of
                       None \<Rightarrow> ([(''USD'', 1)], [(''USD'', cashMeta)])
                     | Some lastSegEnd \<Rightarrow> loadHoldings (strategy_holdings d) (strat_id strat));
                  (m1, sigs1) =
                    (case last_segment_end_ts strat of
                       None \<Rightarrow> (m0, sigs)
                     | Some lastSegEnd \<Rightarrow> fastForward lastSegEnd m0 sigs);
                  st = foldl (\<lambda>st p. hourStep aps strat p st)
                         \<lparr>rp_buckets = b0, rp_meta = m1, rp_sigs = sigs1,
                          rp_valueIndex = valueIndex, rp_db = d\<rparr>
                         (drop startIdx (zip allTimestamps (tl allTimestamps)))
              in (rp_db st)
                   \<lparr>strategy_holdings :=
                      persistHoldings (strategy_holdings (rp_db st)) (strat_id strat)
                        (rp_buckets st) (rp_meta st)\<rparr>)"

subsection \<open>One pass for all strategies\<close>

text \<open>\<open>buildPriceSeries\<close>: the rows are appended to the series of their symbol.\<close>

definition priceSeriesStep :: "(string \<times> PriceSeries) list \<Rightarrow> PriceRow \<Rightarrow> (string \<times> PriceSeries) list" where
  "priceSeriesStep out row =
     (let k = toUpperCase (p_asset_symbol row);
          cur = getOr out k \<lparr>ts = [], px = []\<rparr>
      in AList.update k \<lparr>ts = ts cur @ [p_timestamp row], px = px cur @ [price_usd row]\<rparr> out)"

definition buildPriceSeries :: "PriceRow list \<Rightarrow> (string \<times> PriceSeries) list" where
  "buildPriceSeries priceRows = foldl priceSeriesStep [] priceRows"

text \<open>
  \<open>extendAllStrategySegments\<close>: the price rows come \<open>ORDER BY timestamp ASC\<close>, the grid is
  the sorted set of the timestamps on the hour.
\<close>

definition hourlyGrid :: "PriceRow list \<Rightarrow> int list" where
  "hourlyGrid priceRows =
     sort (remdups (filter (\<lambda>t. t mod 3600 = 0) (map p_timestamp priceRows)))"

definition extendAllStrategySegments :: "db \<Rightarrow> db" where
  "extendAllStrategySegments d =
     (let priceRows = sort_key p_timestamp (prices d) in
      if length priceRows < 2 then d
      else
        let allHourlyTimestamps = hourlyGrid priceRows;
            assetPriceSeries = buildPriceSeries priceRows;
            strats = strategies d
        in if length strats = 0 then d
           else foldl (\<lambda>d' strat. extendSegmentsForStrategy d' strat allHourlyTimestamps assetPriceSeries)
                  d strats)"

subsection \<open>What the snapshot recorder writes\<close>

lemma set_map_filter_conv:
  "set (List.map_filter f xs) = {y. \<exists>x \<in> set xs. f x = Some y}"
  by (induction xs) (auto split: option.splits)

lemma positionOf_None: "positionOf meta tot (a, v) = None \<longleftrightarrow> \<not> isSupportedAsset a"
  by (simp add: positionOf_def Let_def isSupportedAsset_upper)

lemma positionOf_percent: "positionOf meta tot (a, v) = Some p \<Longrightarrow> percent p = v / tot * 100"
  by (auto simp: positionOf_def Let_def split: if_splits)

lemma snapshotPositions_percent:
  assumes "p \<in> set (snapshotPositions b meta tot)" and "0 < tot"
  shows "0 < percent p"
proof -
  obtain a v where "(a, v) \<in> set b" and "0 < v" and "positionOf meta tot (a, v) = Some p"
    using assms(1) by (auto simp: snapshotPositions_def set_map_filter_conv)
  then show ?thesis using assms(2) positionOf_percent [of meta tot a v p] by simp
qed

lemma map_filter_empty: "List.map_filter f xs = [] \<longleftrightarrow> (\<forall>x \<in> set xs. f x = None)"
  by (induction xs) (auto split: option.splits)

lemma snapshotPositions_empty:
  "snapshotPositions b meta tot = [] \<longleftrightarrow>
     \<not> (\<exists>(a, v) \<in> set b. 0 < v \<and> isSupportedAsset a)"
  by (auto simp: snapshotPositions_def map_filter_empty positionOf_None)

lemma recordPositionSnapshot_eq:
  "recordPositionSnapshot snaps sid b meta t =
     (if 0 < sumBuckets b \<and> (\<exists>(a, v) \<in> set b. 0 < v \<and> isSupportedAsset a)
      then snaps((sid, t) \<mapsto> snapshotPositions b meta (sumBuckets b)) else snaps)"
  using snapshotPositions_empty [of b meta "sumBuckets b"]
  by (auto simp: recordPositionSnapshot_def Let_def)

text \<open>
  A table of snapshots after some writes of the engine: every entry is the old one, or a list
  of positions that is not empty and has positive percentages only.
\<close>

definition writtenPositive ::
  "(int \<times> int \<rightharpoonup> Position list) \<Rightarrow> (int \<times> int \<rightharpoonup> Position list) \<Rightarrow> bool" where
  "writtenPositive old new \<longleftrightarrow>
     (\<forall>k. new k = old k \<or> (\<exists>ps. new k = Some ps \<and> ps \<noteq> [] \<and> (\<forall>p \<in> set ps. 0 < percent p)))"

lemma writtenPositive_refl: "writtenPositive s s"
  by (simp add: writtenPositive_def)

lemma writtenPositive_trans:
  "writtenPositive a b \<Longrightarrow> writtenPositive b c \<Longrightarrow> writtenPositive a c"
  unfolding writtenPositive_def by metis

lemma writtenPositive_record:
  "writtenPositive snaps (recordPositionSnapshot snaps sid b meta t)"
proof (cases "0 < sumBuckets b \<and> (\<exists>(a, v) \<in> set b. 0 < v \<and> isSupportedAsset a)")
  case True
  then have ne: "snapshotPositions b meta (sumBuckets b) \<noteq> []"
    using snapshotPositions_empty [of b meta "sumBuckets b"] by blast
  have pos: "\<forall>p \<in> set (snapshotPositions b meta (sumBuckets b)). 0 < percent p"
    using True snapshotPositions_percent by blast
  show ?thesis
    using True ne pos unfolding recordPositionSnapshot_eq writtenPositive_def by auto
next
  case False
  then show ?thesis unfolding recordPositionSnapshot_eq writtenPositive_def by auto
qed

lemma writtenPositive_preSignals:
  "writtenPositive snaps (snd (snd (preSignals tStart sid bm sigs snaps)))"
proof (induction tStart sid bm sigs snaps rule: preSignals.induct)
  case (1 tStart sid bm snaps)
  show ?case by (simp add: writtenPositive_refl)
next
  case (2 tStart sid bm s rest snaps)
  show ?case
  proof (cases "timestamp s \<le> tStart")
    case True
    define r where "r = applySameTs (timestamp s) bm (s # rest)"
    define snaps' where
      "snaps' = recordPositionSnapshot snaps sid (fst (fst r)) (snd (fst r)) (timestamp s)"
    have "writtenPositive snaps' (snd (snd (preSignals tStart sid (fst r) (snd r) snaps')))"
      unfolding snaps'_def by (rule "2.IH" [OF True r_def])
    moreover have "writtenPositive snaps snaps'"
      unfolding snaps'_def by (rule writtenPositive_record)
    moreover have "preSignals tStart sid bm (s # rest) snaps
        = preSignals tStart sid (fst r) (snd r) snaps'"
      using True by (simp add: r_def snaps'_def Let_def)
    ultimately show ?thesis
      using writtenPositive_trans by simp
  next
    case False
    then show ?thesis by (simp add: writtenPositive_refl)
  qed
qed

lemma writtenPositive_intraSignals:
  "writtenPositive snaps (snd (snd (snd (intraSignals aps tEnd sid cursorTs bm sigs snaps))))"
proof (induction aps tEnd sid cursorTs bm sigs snaps rule: intraSignals.induct)
  case (1 aps tEnd sid cursorTs bm snaps)
  show ?case by (simp add: writtenPositive_refl)
next
  case (2 aps tEnd sid cursorTs bm s rest snaps)
  show ?case
  proof (cases "timestamp s \<le> tEnd")
    case True
    define sigTs where "sigTs = timestamp s"
    define drifted where "drifted = (if sigTs > cursorTs
                           then (drift aps (snd bm) cursorTs sigTs (fst bm), snd bm) else bm)"
    define cursor' where "cursor' = (if sigTs > cursorTs then sigTs else cursorTs)"
    define r where "r = applySameTs sigTs drifted (s # rest)"
    define snaps' where
      "snaps' = recordPositionSnapshot snaps sid (fst (fst r)) (snd (fst r)) sigTs"
    have "writtenPositive snaps'
            (snd (snd (snd (intraSignals aps tEnd sid cursor' (fst r) (snd r) snaps'))))"
      unfolding snaps'_def by (rule "2.IH" [OF True sigTs_def drifted_def cursor'_def r_def])
    moreover have "writtenPositive snaps snaps'"
      unfolding snaps'_def by (rule writtenPositive_record)
    moreover have "intraSignals aps tEnd sid cursorTs bm (s # rest) snaps
        = intraSignals aps tEnd sid cursor' (fst r) (snd r) snaps'"
      using True
      by (simp add: r_def snaps'_def Let_def sigTs_def drifted_def cursor'_def)
    ultimately show ?thesis
      using writtenPositive_trans by simp
  next
    case False
    then show ?thesis by (simp add: writtenPositive_refl)
  qed
qed

subsection \<open>What one hour of the replay does to the tables\<close>

lemma hourStep_skip:
  "b \<le> a \<or> b \<le> first_signal_ts strat \<Longrightarrow> hourStep aps strat (a, b) st = st"
  by (auto simp: hourStep_def)

lemma hourStep_run:
  assumes "a < b" and "first_signal_ts strat < b"
  shows "\<exists>v row snaps.
           start_ts row = a \<and> end_ts row = b
           \<and> writtenPositive (strategy_position_snapshots (rp_db st)) snaps
           \<and> rp_db (hourStep aps strat (a, b) st) =
               (rp_db st)
                 \<lparr>strategies := updateStrategyAfterSegments (strategies (rp_db st)) v b (strat_id strat),
                  strategy_segments := insertSegment (strategy_segments (rp_db st)) (strat_id strat) row,
                  strategy_position_snapshots := snaps\<rparr>"
proof -
  define pre where
    "pre = preSignals a (strat_id strat) (rp_buckets st, rp_meta st) (rp_sigs st)
             (strategy_position_snapshots (rp_db st))"
  obtain bm1 sigs1 snaps1 where pre_eq: "pre = (bm1, sigs1, snaps1)"
    by (cases pre) auto
  have w1: "writtenPositive (strategy_position_snapshots (rp_db st)) snaps1"
    using writtenPositive_preSignals [of "strategy_position_snapshots (rp_db st)" a "strat_id strat"
        "(rp_buckets st, rp_meta st)" "rp_sigs st"] pre_eq
    by (simp add: pre_def)
  show ?thesis
  proof (cases "sumBuckets (fst bm1) \<le> 0")
    case True
    have "rp_db (hourStep aps strat (a, b) st) =
        (rp_db st)
          \<lparr>strategies := updateStrategyAfterSegments (strategies (rp_db st)) (rp_valueIndex st) b
                            (strat_id strat),
           strategy_segments := insertSegment (strategy_segments (rp_db st)) (strat_id strat)
              \<lparr>start_ts = a, end_ts = b, duration_sec = b - a, raw_return = 0,
               hourly_equiv_ret = 0, value_index_end = rp_valueIndex st\<rparr>,
           strategy_position_snapshots := snaps1\<rparr>"
      using assms True pre_eq
      by (simp add: hourStep_def Let_def pre_def [symmetric])
    then show ?thesis using w1 by (intro exI conjI) (auto intro: w1)
  next
    case False
    define intra where "intra = intraSignals aps b (strat_id strat) a bm1 sigs1 snaps1"
    obtain cursorTs bm2 sigs2 snaps2 where intra_eq: "intra = (cursorTs, bm2, sigs2, snaps2)"
      by (cases intra) auto
    have w2: "writtenPositive snaps1 snaps2"
      using writtenPositive_intraSignals [of snaps1 aps b "strat_id strat" a bm1 sigs1] intra_eq
      by (simp add: intra_def)
    have w: "writtenPositive (strategy_position_snapshots (rp_db st)) snaps2"
      using w1 w2 by (rule writtenPositive_trans)
    define rr where
      "rr = sumBuckets (drift aps (snd bm2) cursorTs b (fst bm2)) / sumBuckets (fst bm1) - 1"
    have "rp_db (hourStep aps strat (a, b) st) =
        (rp_db st)
          \<lparr>strategies := updateStrategyAfterSegments (strategies (rp_db st))
                            (rp_valueIndex st * (1 + rr)) b (strat_id strat),
           strategy_segments := insertSegment (strategy_segments (rp_db st)) (strat_id strat)
              \<lparr>start_ts = a, end_ts = b, duration_sec = b - a, raw_return = rr,
               hourly_equiv_ret = (if real_of_int (b - a) / 3600 > 0
                                    then rr / (real_of_int (b - a) / 3600) else 0),
               value_index_end = rp_valueIndex st * (1 + rr)\<rparr>,
           strategy_position_snapshots := snaps2\<rparr>"
      using assms False pre_eq intra_eq
      by (simp add: hourStep_def Let_def pre_def [symmetric] intra_def [symmetric] rr_def)
    then show ?thesis using w by (intro exI conjI) (auto intro: w)
  qed
qed

text \<open>A strategy row without its watermark: the columns that the replay never writes.\<close>

definition stratCore :: "StrategyRow \<Rightarrow> StrategyRow" where
  "stratCore r = r\<lparr>last_value_index := 0, last_segment_end_ts := None\<rparr>"

lemma stratCore_update_row:
  "stratCore (if c then r\<lparr>last_value_index := v, last_segment_end_ts := Some t\<rparr> else r) = stratCore r"
  by (simp add: stratCore_def)

lemma stratCore_update:
  "map stratCore (updateStrategyAfterSegments tbl v t sid) = map stratCore tbl"
  by (simp add: updateStrategyAfterSegments_def comp_def stratCore_update_row)

lemma watermark_update:
  assumes "r \<in> set (updateStrategyAfterSegments tbl v t sid)" and "strat_id r = sid"
  shows "last_segment_end_ts r = Some t"
proof -
  obtain r0 where r0: "r0 \<in> set tbl"
    "r = (if strat_id r0 = sid then r0\<lparr>last_value_index := v, last_segment_end_ts := Some t\<rparr> else r0)"
    using assms(1) unfolding updateStrategyAfterSegments_def by (auto simp only: set_map image_iff)
  show ?thesis
  proof (cases "strat_id r0 = sid")
    case True
    then show ?thesis using r0(2) by simp
  next
    case False
    then have "r = r0" using r0(2) by simp
    then show ?thesis using False assms(2) by simp
  qed
qed

lemma insertSegment_append:
  "\<exists>new. insertSegment tbl sid row = tbl @ new \<and> set new \<subseteq> {(sid, row)}"
proof (cases "list_ex (\<lambda>(sid', r). sid' = sid \<and> start_ts r = start_ts row \<and> end_ts r = end_ts row) tbl")
  case True
  then have "insertSegment tbl sid row = tbl @ []" by (simp add: insertSegment_def)
  then show ?thesis by (intro exI [of _ "[]"]) simp
next
  case False
  then have "insertSegment tbl sid row = tbl @ [(sid, row)]" by (simp add: insertSegment_def)
  then show ?thesis by (intro exI [of _ "[(sid, row)]"]) simp
qed

text \<open>
  The tables \<open>d'\<close> after some hours of the replay of \<open>strat\<close> over the pairs \<open>ps\<close> of the
  grid, from the tables \<open>d\<close>.
\<close>

definition replayed :: "StrategyRow \<Rightarrow> (int \<times> int) list \<Rightarrow> db \<Rightarrow> db \<Rightarrow> bool" where
  "replayed strat ps d d' \<longleftrightarrow>
     signals d' = signals d \<and> prices d' = prices d
     \<and> strategy_holdings d' = strategy_holdings d
     \<and> map stratCore (strategies d') = map stratCore (strategies d)
     \<and> writtenPositive (strategy_position_snapshots d) (strategy_position_snapshots d')
     \<and> (\<exists>new. strategy_segments d' = strategy_segments d @ new
           \<and> (\<forall>(sid, r) \<in> set new.
                 sid = strat_id strat \<and> (start_ts r, end_ts r) \<in> set ps \<and> start_ts r < end_ts r))"

lemma replayed_refl: "replayed strat ps d d"
  by (simp add: replayed_def writtenPositive_refl)

lemma replayed_trans:
  assumes "replayed strat [p] d d'" and "replayed strat ps d' d''"
  shows "replayed strat (p # ps) d d''"
proof -
  obtain new1 where n1: "strategy_segments d' = strategy_segments d @ new1"
    "\<forall>(sid, r) \<in> set new1. sid = strat_id strat \<and> (start_ts r, end_ts r) \<in> set [p] \<and> start_ts r < end_ts r"
    using assms(1) unfolding replayed_def by blast
  obtain new2 where n2: "strategy_segments d'' = strategy_segments d' @ new2"
    "\<forall>(sid, r) \<in> set new2. sid = strat_id strat \<and> (start_ts r, end_ts r) \<in> set ps \<and> start_ts r < end_ts r"
    using assms(2) unfolding replayed_def by blast
  have seg: "strategy_segments d'' = strategy_segments d @ (new1 @ new2)"
    using n1(1) n2(1) by simp
  have all: "\<forall>(sid, r) \<in> set (new1 @ new2).
      sid = strat_id strat \<and> (start_ts r, end_ts r) \<in> set (p # ps) \<and> start_ts r < end_ts r"
    using n1(2) n2(2) by auto
  have w: "writtenPositive (strategy_position_snapshots d) (strategy_position_snapshots d'')"
    using assms writtenPositive_trans unfolding replayed_def by blast
  show ?thesis
    unfolding replayed_def
    using assms seg all w unfolding replayed_def by (intro conjI exI [of _ "new1 @ new2"]) simp_all
qed

lemma hourStep_replayed: "replayed strat [p] (rp_db st) (rp_db (hourStep aps strat p st))"
proof -
  obtain a b where p: "p = (a, b)" by (cases p)
  show ?thesis
  proof (cases "a < b \<and> first_signal_ts strat < b")
    case False
    then have "hourStep aps strat (a, b) st = st"
      by (intro hourStep_skip) auto
    then show ?thesis by (simp add: p replayed_refl)
  next
    case True
    then obtain v row snaps where r: "start_ts row = a" "end_ts row = b"
      "writtenPositive (strategy_position_snapshots (rp_db st)) snaps"
      "rp_db (hourStep aps strat (a, b) st) =
               (rp_db st)
                 \<lparr>strategies := updateStrategyAfterSegments (strategies (rp_db st)) v b (strat_id strat),
                  strategy_segments := insertSegment (strategy_segments (rp_db st)) (strat_id strat) row,
                  strategy_position_snapshots := snaps\<rparr>"
      using hourStep_run [of a b strat st aps] by blast
    obtain new where new: "insertSegment (strategy_segments (rp_db st)) (strat_id strat) row
        = strategy_segments (rp_db st) @ new" "set new \<subseteq> {(strat_id strat, row)}"
      using insertSegment_append by blast
    have "\<forall>(sid, r) \<in> set new.
        sid = strat_id strat \<and> (start_ts r, end_ts r) \<in> set [(a, b)] \<and> start_ts r < end_ts r"
      using new(2) r(1,2) True by auto
    then show ?thesis
      unfolding replayed_def p
      using r new(1) by (intro conjI exI [of _ new]) (simp_all add: stratCore_update)
  qed
qed

lemma foldl_hourStep_replayed:
  "replayed strat ps (rp_db st) (rp_db (foldl (\<lambda>st p. hourStep aps strat p st) st ps))"
proof (induction ps arbitrary: st)
  case Nil
  show ?case by (simp add: replayed_refl)
next
  case (Cons p ps)
  have "replayed strat [p] (rp_db st) (rp_db (hourStep aps strat p st))"
    by (rule hourStep_replayed)
  moreover have "replayed strat ps (rp_db (hourStep aps strat p st))
      (rp_db (foldl (\<lambda>st p. hourStep aps strat p st) (hourStep aps strat p st) ps))"
    by (rule Cons.IH)
  ultimately show ?case
    using replayed_trans by simp
qed

lemma foldl_hourStep_watermark:
  assumes "ps \<noteq> []" and "last ps = (a, b)" and "a < b" and "first_signal_ts strat < b"
    and "r \<in> set (strategies (rp_db (foldl (\<lambda>st p. hourStep aps strat p st) st ps)))"
    and "strat_id r = strat_id strat"
  shows "last_segment_end_ts r = Some b"
proof -
  define st' where "st' = foldl (\<lambda>st p. hourStep aps strat p st) st (butlast ps)"
  have "ps = butlast ps @ [(a, b)]"
    using assms(1,2) by (metis append_butlast_last_id)
  then have "foldl (\<lambda>st p. hourStep aps strat p st) st ps = hourStep aps strat (a, b) st'"
    by (metis foldl_append foldl_Cons foldl_Nil st'_def)
  moreover obtain v row snaps where
    "rp_db (hourStep aps strat (a, b) st') =
       (rp_db st')
         \<lparr>strategies := updateStrategyAfterSegments (strategies (rp_db st')) v b (strat_id strat),
          strategy_segments := insertSegment (strategy_segments (rp_db st')) (strat_id strat) row,
          strategy_position_snapshots := snaps\<rparr>"
    using hourStep_run [OF assms(3,4), of st' aps] by blast
  ultimately have "r \<in> set (updateStrategyAfterSegments (strategies (rp_db st')) v b (strat_id strat))"
    using assms(5) by simp
  then show ?thesis
    using assms(6) by (rule watermark_update)
qed

subsection \<open>The grid\<close>

lemma findIndex_Some_P: "findIndex P xs = Some i \<Longrightarrow> i < length xs \<and> P (xs ! i)"
  by (induction xs arbitrary: i) (auto split: if_splits)

lemma butlast_less_last:
  assumes "sorted grid" and "distinct grid" and "t \<in> set (butlast grid)"
  shows "t < last grid"
proof -
  obtain i where i: "i < length (butlast grid)" "butlast grid ! i = t"
    using assms(3) by (auto simp: in_set_conv_nth)
  then have lt: "i < length grid - 1" by simp
  then have ne: "grid \<noteq> []" by auto
  have t: "grid ! i = t" using i by (simp add: nth_butlast)
  have "grid ! i \<le> grid ! (length grid - 1)"
    using assms(1) lt by (intro sorted_nth_mono) auto
  moreover have "grid ! i \<noteq> grid ! (length grid - 1)"
    using assms(2) lt by (simp add: nth_eq_iff_index_eq)
  ultimately show ?thesis
    using t ne by (simp add: last_conv_nth)
qed

lemma grid_pairs_nth:
  assumes "(a, b) \<in> set (drop k (zip grid (tl grid)))"
  shows "\<exists>i. k \<le> i \<and> Suc i < length grid \<and> a = grid ! i \<and> b = grid ! Suc i"
proof -
  obtain j where j: "j < length (drop k (zip grid (tl grid)))"
    "drop k (zip grid (tl grid)) ! j = (a, b)"
    using assms by (auto simp: in_set_conv_nth)
  then have lt: "k + j < length grid - 1" by simp
  then have "zip grid (tl grid) ! (k + j) = (grid ! (k + j), grid ! Suc (k + j))"
    by (simp add: nth_tl)
  then have "a = grid ! (k + j) \<and> b = grid ! Suc (k + j)"
    using j lt by simp
  then show ?thesis using lt by (intro exI [of _ "k + j"]) auto
qed

lemma grid_pairs_last:
  assumes "k < length grid - 1"
  shows "drop k (zip grid (tl grid)) \<noteq> []"
    and "last (drop k (zip grid (tl grid))) = (last (butlast grid), last grid)"
proof -
  define n where "n = length grid - 2"
  have len: "length grid = Suc (Suc n)" using assms unfolding n_def by linarith
  show ne: "drop k (zip grid (tl grid)) \<noteq> []" using assms by simp
  have g: "grid \<noteq> []" using len by auto
  have lb: "length (butlast grid) = Suc n" using len by simp
  have g': "butlast grid \<noteq> []"
  proof
    assume "butlast grid = []"
    then have "length (butlast grid) = 0" by (simp only: list.size)
    with lb show False by linarith
  qed
  have zl: "length (zip grid (tl grid)) = Suc n" using len by simp
  have zne: "zip grid (tl grid) \<noteq> []"
  proof
    assume "zip grid (tl grid) = []"
    then have "length (zip grid (tl grid)) = 0" by (simp only: list.size)
    with zl show False by linarith
  qed
  have a: "last (drop k (zip grid (tl grid))) = last (zip grid (tl grid))"
    using ne by simp
  have b: "last (zip grid (tl grid)) = zip grid (tl grid) ! n"
    using zl zne by (simp add: last_conv_nth)
  have c: "zip grid (tl grid) ! n = (grid ! n, grid ! Suc n)"
    using len by (simp add: nth_tl)
  have d: "grid ! n = last (butlast grid)"
    using len g' by (simp add: last_conv_nth nth_butlast)
  have e: "grid ! Suc n = last grid"
    using len g by (simp add: last_conv_nth)
  show "last (drop k (zip grid (tl grid))) = (last (butlast grid), last grid)"
    by (simp only: a b c d e)
qed

subsection \<open>A pass either returns at once or replays to the end of the grid\<close>

lemma startIndex_at_watermark:
  assumes "sorted grid" and "distinct grid" and "grid \<noteq> []"
    and "last_segment_end_ts s = Some (last grid)"
  shows "startIndex s grid = None"
proof -
  have "\<forall>t \<in> set (butlast grid). \<not> last grid \<le> t"
    using butlast_less_last [OF assms(1,2)] by fastforce
  then have "findIndex (\<lambda>t. t \<ge> last grid) (butlast grid) = None"
    by (simp add: findIndex_None)
  then show ?thesis using assms(4) by (simp add: startIndex_def)
qed

lemma extendSegmentsForStrategy_at_watermark:
  assumes "sorted grid" and "distinct grid" and "grid \<noteq> []"
    and "last_segment_end_ts s = Some (last grid)"
  shows "extendSegmentsForStrategy d s grid aps = d"
  using startIndex_at_watermark [OF assms]
  by (simp add: extendSegmentsForStrategy_def Let_def)

lemma extendSegmentsForStrategy_shape:
  "extendSegmentsForStrategy d strat grid aps = d
   \<or> (\<exists>k0 d2 H.
        grid \<noteq> [] \<and> first_signal_ts strat < last grid
        \<and> startIndex strat grid = Some k0 \<and> k0 < length grid - 1
        \<and> replayed strat (drop k0 (zip grid (tl grid))) d d2
        \<and> (\<exists>st0. d2 = rp_db (foldl (\<lambda>st p. hourStep aps strat p st) st0
                                 (drop k0 (zip grid (tl grid)))))
        \<and> extendSegmentsForStrategy d strat grid aps = d2\<lparr>strategy_holdings := H\<rparr>)"
proof (cases "extendSegmentsForStrategy d strat grid aps = d")
  case True
  then show ?thesis by simp
next
  case False
  define sigs where "sigs = getSignalsForStrategy d (trader_address strat) (strategy_name strat)"
  have s: "length sigs \<noteq> 0"
    using False by (auto simp: extendSegmentsForStrategy_def Let_def sigs_def)
  have m: "\<not> (grid \<noteq> [] \<and> last grid \<le> first_signal_ts strat)"
    using False s by (auto simp: extendSegmentsForStrategy_def Let_def sigs_def)
  obtain k0 where k0: "startIndex strat grid = Some k0"
    using False s m
    by (cases "startIndex strat grid") (auto simp: extendSegmentsForStrategy_def Let_def sigs_def)
  have k: "k0 < length grid - 1"
  proof (rule ccontr)
    assume "\<not> k0 < length grid - 1"
    then have "extendSegmentsForStrategy d strat grid aps = d"
      using k0 by (simp add: extendSegmentsForStrategy_def Let_def)
    then show False using False by simp
  qed
  then have g: "grid \<noteq> []" by auto
  then have first: "first_signal_ts strat < last grid" using m by simp
  define valueIndex where
    "valueIndex = (if last_value_index strat = 0 then 1 else last_value_index strat)"
  define bm0 where
    "bm0 = (case last_segment_end_ts strat of
              None \<Rightarrow> ([(''USD'', 1)], [(''USD'', cashMeta)])
            | Some lastSegEnd \<Rightarrow> loadHoldings (strategy_holdings d) (strat_id strat))"
  define ms where
    "ms = (case last_segment_end_ts strat of
             None \<Rightarrow> (snd bm0, sigs)
           | Some lastSegEnd \<Rightarrow> fastForward lastSegEnd (snd bm0) sigs)"
  define st0 where
    "st0 = \<lparr>rp_buckets = fst bm0, rp_meta = fst ms, rp_sigs = snd ms,
            rp_valueIndex = valueIndex, rp_db = d\<rparr>"
  define st where
    "st = foldl (\<lambda>st p. hourStep aps strat p st) st0 (drop k0 (zip grid (tl grid)))"
  have res: "extendSegmentsForStrategy d strat grid aps =
      (rp_db st)\<lparr>strategy_holdings :=
                   persistHoldings (strategy_holdings (rp_db st)) (strat_id strat)
                     (rp_buckets st) (rp_meta st)\<rparr>"
    using s first g k0 k
    by (simp add: extendSegmentsForStrategy_def Let_def sigs_def [symmetric] split_beta
        valueIndex_def [symmetric] bm0_def [symmetric] ms_def [symmetric] st0_def [symmetric]
        st_def [symmetric])
  have rep: "replayed strat (drop k0 (zip grid (tl grid))) d (rp_db st)"
    using foldl_hourStep_replayed [of strat "drop k0 (zip grid (tl grid))" st0 aps]
    by (simp add: st_def st0_def)
  have "\<exists>st0. rp_db st = rp_db (foldl (\<lambda>st p. hourStep aps strat p st) st0
                                 (drop k0 (zip grid (tl grid))))"
    unfolding st_def by blast
  then show ?thesis
    using g first k0 k rep res by blast
qed

lemma extendSegmentsForStrategy_cases:
  assumes "sorted grid" and "distinct grid"
  shows "extendSegmentsForStrategy d strat grid aps = d
       \<or> (\<exists>k0 d2 H.
            grid \<noteq> [] \<and> startIndex strat grid = Some k0 \<and> k0 < length grid - 1
            \<and> replayed strat (drop k0 (zip grid (tl grid))) d d2
            \<and> (\<forall>r \<in> set (strategies d2).
                  strat_id r = strat_id strat \<longrightarrow> last_segment_end_ts r = Some (last grid))
            \<and> extendSegmentsForStrategy d strat grid aps = d2\<lparr>strategy_holdings := H\<rparr>)"
proof (cases "extendSegmentsForStrategy d strat grid aps = d")
  case True
  then show ?thesis by simp
next
  case False
  then obtain k0 d2 H st0 where sh: "grid \<noteq> []" "first_signal_ts strat < last grid"
      "startIndex strat grid = Some k0" "k0 < length grid - 1"
      "replayed strat (drop k0 (zip grid (tl grid))) d d2"
      "d2 = rp_db (foldl (\<lambda>st p. hourStep aps strat p st) st0 (drop k0 (zip grid (tl grid))))"
      "extendSegmentsForStrategy d strat grid aps = d2\<lparr>strategy_holdings := H\<rparr>"
    using extendSegmentsForStrategy_shape [of d strat grid aps] by blast
  have ne: "drop k0 (zip grid (tl grid)) \<noteq> []"
    and la: "last (drop k0 (zip grid (tl grid))) = (last (butlast grid), last grid)"
    using grid_pairs_last [OF sh(4)] by simp_all
  have "butlast grid \<noteq> []"
  proof
    assume "butlast grid = []"
    then have "length (butlast grid) = 0" by (simp only: list.size)
    moreover have "length (butlast grid) = length grid - 1" by simp
    ultimately show False using sh(4) by linarith
  qed
  then have "last (butlast grid) \<in> set (butlast grid)" by simp
  then have lt: "last (butlast grid) < last grid"
    using butlast_less_last [OF assms] by simp
  have wm: "\<forall>r \<in> set (strategies d2).
      strat_id r = strat_id strat \<longrightarrow> last_segment_end_ts r = Some (last grid)"
    using foldl_hourStep_watermark [OF ne la lt sh(2), of _ aps st0]
    by (simp add: sh(6))
  show ?thesis
    using sh(1,3,4,5,7) wm by blast
qed

lemma writtenPositive_extendSegmentsForStrategy:
  "writtenPositive (strategy_position_snapshots d)
     (strategy_position_snapshots (extendSegmentsForStrategy d strat grid aps))"
proof -
  consider "extendSegmentsForStrategy d strat grid aps = d"
    | k0 d2 H where "replayed strat (drop k0 (zip grid (tl grid))) d d2"
        "extendSegmentsForStrategy d strat grid aps = d2\<lparr>strategy_holdings := H\<rparr>"
    using extendSegmentsForStrategy_shape [of d strat grid aps] by blast
  then show ?thesis
  proof cases
    case 1
    then show ?thesis by (simp add: writtenPositive_refl)
  next
    case 2
    then show ?thesis by (simp add: replayed_def)
  qed
qed

lemma distinct_map_eq:
  "distinct (map f xs) \<Longrightarrow> x \<in> set xs \<Longrightarrow> y \<in> set xs \<Longrightarrow> f x = f y \<Longrightarrow> x = y"
  by (simp add: distinct_map inj_on_def)

lemma strat_id_stratCore: "strat_id (stratCore r) = strat_id r"
  by (simp add: stratCore_def)

lemma replayed_ids:
  assumes "replayed strat ps d d'"
  shows "map strat_id (strategies d') = map strat_id (strategies d)"
proof -
  have "map strat_id (strategies d') = map strat_id (map stratCore (strategies d'))"
    by (simp add: comp_def strat_id_stratCore)
  also have "\<dots> = map strat_id (map stratCore (strategies d))"
    using assms by (simp only: replayed_def)
  also have "\<dots> = map strat_id (strategies d)"
    by (simp add: comp_def strat_id_stratCore)
  finally show ?thesis .
qed

subsection \<open>Idempotent replay\<close>

text \<open>
  Claim C4. Let the grid of hourly timestamps be sorted and without repetition, and let
  \<open>strat\<close> be a row of the table of strategies, whose ids are unique. After one pass for the
  strategy, a second pass on the same grid, prices and signals, started from the row of the
  strategy as the first pass left it, returns the tables unchanged: no segment is inserted,
  none is changed or deleted, and the holdings, the value index and the watermark stay.
  Any pass keeps the segments that exist, in their order, and the segments it appends belong
  to the strategy and start at or after the watermark \<open>lastSegmentEndTs\<close> from which the pass
  started, so they end strictly after it.
\<close>

theorem extendSegmentsForStrategy_idempotent:
  assumes "sorted grid" and "distinct grid"
    and "strat \<in> set (strategies d)" and "distinct (map strat_id (strategies d))"
  shows "(\<forall>strat1 \<in> set (strategies (extendSegmentsForStrategy d strat grid aps)).
            strat_id strat1 = strat_id strat \<longrightarrow>
            extendSegmentsForStrategy (extendSegmentsForStrategy d strat grid aps) strat1 grid aps
              = extendSegmentsForStrategy d strat grid aps)
       \<and> map strat_id (strategies (extendSegmentsForStrategy d strat grid aps))
           = map strat_id (strategies d)
       \<and> (\<exists>new. strategy_segments (extendSegmentsForStrategy d strat grid aps)
                   = strategy_segments d @ new
              \<and> (\<forall>(sid, r) \<in> set new.
                    sid = strat_id strat \<and> start_ts r < end_ts r
                    \<and> (\<forall>w. last_segment_end_ts strat = Some w \<longrightarrow>
                          w \<le> start_ts r \<and> w < end_ts r)))"
proof -
  define d1 where "d1 = extendSegmentsForStrategy d strat grid aps"
  consider (same) "d1 = d"
    | (ran) k0 d2 H where "grid \<noteq> []" "startIndex strat grid = Some k0" "k0 < length grid - 1"
        "replayed strat (drop k0 (zip grid (tl grid))) d d2"
        "\<forall>r \<in> set (strategies d2).
           strat_id r = strat_id strat \<longrightarrow> last_segment_end_ts r = Some (last grid)"
        "d1 = d2\<lparr>strategy_holdings := H\<rparr>"
    using extendSegmentsForStrategy_cases [OF assms(1,2), of d strat aps] unfolding d1_def by blast
  then have "(\<forall>strat1 \<in> set (strategies d1).
            strat_id strat1 = strat_id strat \<longrightarrow> extendSegmentsForStrategy d1 strat1 grid aps = d1)
       \<and> map strat_id (strategies d1) = map strat_id (strategies d)
       \<and> (\<exists>new. strategy_segments d1 = strategy_segments d @ new
              \<and> (\<forall>(sid, r) \<in> set new.
                    sid = strat_id strat \<and> start_ts r < end_ts r
                    \<and> (\<forall>w. last_segment_end_ts strat = Some w \<longrightarrow>
                          w \<le> start_ts r \<and> w < end_ts r)))"
  proof cases
    case same
    have "extendSegmentsForStrategy d1 strat1 grid aps = d1"
      if "strat1 \<in> set (strategies d1)" and "strat_id strat1 = strat_id strat" for strat1
    proof -
      have "strat1 = strat"
        using distinct_map_eq [OF assms(4) _ assms(3), of strat1] that same by simp
      then show ?thesis using same d1_def by simp
    qed
    moreover have "\<exists>new. strategy_segments d1 = strategy_segments d @ new
              \<and> (\<forall>(sid, r) \<in> set new.
                    sid = strat_id strat \<and> start_ts r < end_ts r
                    \<and> (\<forall>w. last_segment_end_ts strat = Some w \<longrightarrow>
                          w \<le> start_ts r \<and> w < end_ts r))"
      using same by (intro exI [of _ "[]"]) simp
    ultimately show ?thesis using same by simp
  next
    case ran
    have strats: "strategies d1 = strategies d2" and segs: "strategy_segments d1 = strategy_segments d2"
      using ran(6) by simp_all
    have idem: "extendSegmentsForStrategy d1 strat1 grid aps = d1"
      if "strat1 \<in> set (strategies d1)" and "strat_id strat1 = strat_id strat" for strat1
    proof -
      have "last_segment_end_ts strat1 = Some (last grid)"
        using ran(5) that strats by simp
      then show ?thesis
        using extendSegmentsForStrategy_at_watermark [OF assms(1,2) ran(1)] by simp
    qed
    have ids: "map strat_id (strategies d1) = map strat_id (strategies d)"
      using replayed_ids [OF ran(4)] strats by simp
    obtain new where new: "strategy_segments d2 = strategy_segments d @ new"
      "\<forall>(sid, r) \<in> set new. sid = strat_id strat
          \<and> (start_ts r, end_ts r) \<in> set (drop k0 (zip grid (tl grid))) \<and> start_ts r < end_ts r"
      using ran(4) unfolding replayed_def by blast
    have after: "w \<le> start_ts r \<and> w < end_ts r"
      if "(sid, r) \<in> set new" and w: "last_segment_end_ts strat = Some w" for sid r w
    proof -
      have mem: "(start_ts r, end_ts r) \<in> set (drop k0 (zip grid (tl grid)))"
        and lt: "start_ts r < end_ts r"
        using new(2) that(1) by auto
      obtain i where i: "k0 \<le> i" "Suc i < length grid" "start_ts r = grid ! i"
        using grid_pairs_nth [OF mem] by blast
      have "findIndex (\<lambda>t. t \<ge> w) (butlast grid) = Some k0"
        using ran(2) w by (simp add: startIndex_def)
      then have "k0 < length (butlast grid)" and "w \<le> butlast grid ! k0"
        using findIndex_Some_P [of "\<lambda>t. t \<ge> w" "butlast grid" k0] by simp_all
      then have "w \<le> grid ! k0"
        by (simp add: nth_butlast)
      also have "grid ! k0 \<le> grid ! i"
        using assms(1) i(1,2) by (intro sorted_nth_mono) auto
      finally have "w \<le> start_ts r" using i(3) by simp
      then show ?thesis using lt by simp
    qed
    have "\<forall>(sid, r) \<in> set new.
            sid = strat_id strat \<and> start_ts r < end_ts r
            \<and> (\<forall>w. last_segment_end_ts strat = Some w \<longrightarrow> w \<le> start_ts r \<and> w < end_ts r)"
      using new(2) after by fastforce
    then have "\<exists>new. strategy_segments d1 = strategy_segments d @ new
              \<and> (\<forall>(sid, r) \<in> set new.
                    sid = strat_id strat \<and> start_ts r < end_ts r
                    \<and> (\<forall>w. last_segment_end_ts strat = Some w \<longrightarrow>
                          w \<le> start_ts r \<and> w < end_ts r))"
      using new(1) segs by (intro exI [of _ new]) simp
    then show ?thesis using idem ids by blast
  qed
  then show ?thesis unfolding d1_def .
qed

text \<open>An example: a strategy with one signal, and one hour of prices.\<close>

definition exStrat :: StrategyRow where
  "exStrat =
     \<lparr>strat_id = 1, trader_address = ''0xa'', strategy_name = ''s1'', first_signal_ts = 4000,
      last_signal_ts = 4000, last_value_index = 1, last_segment_end_ts = None\<rparr>"

definition exDb :: db where
  "exDb =
     \<lparr>signals = [(''0xa'', ''s1'',
                   \<lparr>asset_symbol = ''BTC'', sig_direction = 0, sig_leverage = 2, weight_raw = 60,
                    timestamp = 4000\<rparr>)],
      strategies = [exStrat], prices = [], strategy_segments = [], strategy_holdings = [],
      strategy_position_snapshots = Map.empty\<rparr>"

definition exSeries :: "(string \<times> PriceSeries) list" where
  "exSeries = [(''BTC'', \<lparr>ts = [3600, 7200], px = [100, 110]\<rparr>)]"

theorem extendSegmentsForStrategy_idempotent_witness:
  "sorted [3600, 7200 :: int] \<and> distinct [3600, 7200 :: int]
   \<and> exStrat \<in> set (strategies exDb) \<and> distinct (map strat_id (strategies exDb))
   \<and> strategy_segments (extendSegmentsForStrategy exDb exStrat [3600, 7200] exSeries) =
        [(1, \<lparr>start_ts = 3600, end_ts = 7200, duration_sec = 3600, raw_return = 1 / 5,
               hourly_equiv_ret = 1 / 5, value_index_end = 6 / 5\<rparr>)]
   \<and> extendSegmentsForStrategy (extendSegmentsForStrategy exDb exStrat [3600, 7200] exSeries)
        (exStrat\<lparr>last_value_index := 6 / 5, last_segment_end_ts := Some 7200\<rparr>) [3600, 7200] exSeries
       = extendSegmentsForStrategy exDb exStrat [3600, 7200] exSeries"
proof -
  have h1: "sorted [3600, 7200 :: int]" and h2: "distinct [3600, 7200 :: int]"
    by simp_all
  have h3: "exStrat \<in> set (strategies exDb)" and h4: "distinct (map strat_id (strategies exDb))"
    by (simp_all add: exDb_def)
  have segs: "strategy_segments (extendSegmentsForStrategy exDb exStrat [3600, 7200] exSeries) =
        [(1, \<lparr>start_ts = 3600, end_ts = 7200, duration_sec = 3600, raw_return = 1 / 5,
               hourly_equiv_ret = 1 / 5, value_index_end = 6 / 5\<rparr>)]"
    by code_simp
  have strats: "strategies (extendSegmentsForStrategy exDb exStrat [3600, 7200] exSeries) =
        [exStrat\<lparr>last_value_index := 6 / 5, last_segment_end_ts := Some 7200\<rparr>]"
    by code_simp
  have id: "strat_id (exStrat\<lparr>last_value_index := 6 / 5, last_segment_end_ts := Some 7200\<rparr>)
      = strat_id exStrat"
    by simp
  show ?thesis
    using extendSegmentsForStrategy_idempotent [OF h1 h2 h3 h4, of exSeries] h1 h2 h3 h4 segs strats id
    by simp
qed

section \<open>The last value index and the last segment\<close>

text \<open>\<open>getSegmentsForStrategyStmt\<close>: the segments of a strategy, \<open>ORDER BY end_ts ASC\<close>.\<close>

definition getSegmentsForStrategy :: "db \<Rightarrow> int \<Rightarrow> SegmentRow list" where
  "getSegmentsForStrategy d sid =
     sort_key end_ts (map snd (filter (\<lambda>(s, r). s = sid) (strategy_segments d)))"

text \<open>
  \<open>recomputeAllStrategyStats\<close>: for each row of the table of strategies, the statistics of
  its segments.
\<close>

definition recomputeAllStrategyStats :: "stats_table \<Rightarrow> db \<Rightarrow> int \<Rightarrow> stats_table" where
  "recomputeAllStrategyStats stats d nowSec =
     foldl (\<lambda>st strat. recomputeStatsForStrategy st (strat_id strat)
                          (getSegmentsForStrategy d (strat_id strat)) nowSec)
           stats (strategies d)"

text \<open>
  The link between the row of a strategy and its segments. A row without watermark has no
  segment. A row with the watermark \<open>w\<close> has a segment that ends at \<open>w\<close> and carries the
  value index of the row, and every other segment of the strategy ends before \<open>w\<close>.
\<close>

definition segmentsLinked :: "db \<Rightarrow> StrategyRow \<Rightarrow> bool" where
  "segmentsLinked d strat \<longleftrightarrow>
     (case last_segment_end_ts strat of
        None \<Rightarrow> (\<forall>(s, r) \<in> set (strategy_segments d). s \<noteq> strat_id strat)
      | Some w \<Rightarrow>
          (\<exists>(s, r) \<in> set (strategy_segments d).
             s = strat_id strat \<and> end_ts r = w \<and> value_index_end r = last_value_index strat
             \<and> (\<forall>(s', r') \<in> set (strategy_segments d).
                   s' = strat_id strat \<longrightarrow> r' \<noteq> r \<longrightarrow> end_ts r' < w)))"

definition dbLinked :: "db \<Rightarrow> bool" where
  "dbLinked d \<longleftrightarrow>
     distinct (map strat_id (strategies d)) \<and> (\<forall>r \<in> set (strategies d). segmentsLinked d r)"

subsection \<open>The link gives the final value of the statistics\<close>

lemma last_sort_key_max:
  assumes "y \<in> set zs" and "\<forall>x \<in> set zs. x \<noteq> y \<longrightarrow> f x < f y"
  shows "last (sort_key f zs) = y"
proof (rule ccontr)
  assume neq: "last (sort_key f zs) \<noteq> y"
  have yin: "y \<in> set (sort_key f zs)" using assms(1) by simp
  have ne: "sort_key f zs \<noteq> []"
  proof
    assume "sort_key f zs = []"
    then have "set (sort_key f zs) = {}" by (simp only: list.set)
    then show False using assms(1) by simp
  qed
  have mem: "last (sort_key f zs) \<in> set zs"
    using last_in_set [OF ne] by simp
  obtain i where i: "i < length (sort_key f zs)" "sort_key f zs ! i = y"
    using yin unfolding in_set_conv_nth by blast
  have "sorted (map f (sort_key f zs))" by simp
  then have "map f (sort_key f zs) ! i \<le> map f (sort_key f zs) ! (length (sort_key f zs) - 1)"
    using i(1) by (intro sorted_nth_mono) auto
  then have "f y \<le> f (last (sort_key f zs))"
    using i ne by (simp add: last_conv_nth)
  moreover have "f (last (sort_key f zs)) < f y"
    using assms(2) mem neq by blast
  ultimately show False by simp
qed

lemma segmentsLinked_final:
  assumes "segmentsLinked d strat" and "getSegmentsForStrategy d (strat_id strat) \<noteq> []"
  shows "finalValueSpec (getSegmentsForStrategy d (strat_id strat)) = last_value_index strat"
proof (cases "last_segment_end_ts strat")
  case None
  then have "\<forall>(s, r) \<in> set (strategy_segments d). s \<noteq> strat_id strat"
    using assms(1) by (simp add: segmentsLinked_def)
  then have "filter (\<lambda>(s, r). s = strat_id strat) (strategy_segments d) = []"
    by (auto simp: filter_empty_conv)
  then show ?thesis using assms(2) by (simp add: getSegmentsForStrategy_def)
next
  case (Some w)
  then obtain s r where r: "(s, r) \<in> set (strategy_segments d)" "s = strat_id strat"
      "end_ts r = w" "value_index_end r = last_value_index strat"
      "\<forall>(s', r') \<in> set (strategy_segments d). s' = strat_id strat \<longrightarrow> r' \<noteq> r \<longrightarrow> end_ts r' < w"
    using assms(1) by (auto simp: segmentsLinked_def)
  define zs where "zs = map snd (filter (\<lambda>(s, r). s = strat_id strat) (strategy_segments d))"
  have "r \<in> set zs"
    using r(1,2) unfolding zs_def by force
  moreover have "\<forall>x \<in> set zs. x \<noteq> r \<longrightarrow> end_ts x < end_ts r"
    using r(3,5) unfolding zs_def by auto
  ultimately have "last (sort_key end_ts zs) = r"
    by (rule last_sort_key_max)
  then show ?thesis
    using r(4) by (simp add: finalValueSpec_def getSegmentsForStrategy_def zs_def)
qed

lemma recomputeAllStrategyStats_rows:
  "foldl (\<lambda>st strat. recomputeStatsForStrategy st (strat_id strat) (segs (strat_id strat)) nowSec)
         stats rs (sid, w) =
     (if sid \<in> strat_id ` set rs \<and> segs sid \<noteq> [] \<and> w \<in> fst ` set STAT_WINDOWS
      then Some (statsForWindow (segs sid) nowSec (the (map_of STAT_WINDOWS w)))
      else stats (sid, w))"
proof (induction rs arbitrary: stats)
  case Nil
  show ?case by simp
next
  case (Cons r rs)
  have step: "recomputeStatsForStrategy stats (strat_id r) (segs (strat_id r)) nowSec (sid, w) =
      (if sid = strat_id r \<and> segs sid \<noteq> [] \<and> w \<in> fst ` set STAT_WINDOWS
       then Some (statsForWindow (segs sid) nowSec (the (map_of STAT_WINDOWS w)))
       else stats (sid, w))"
  proof (cases "segs (strat_id r) = []")
    case True
    then show ?thesis by (auto simp: recomputeStatsForStrategy_def)
  next
    case False
    then show ?thesis
      using recomputeStatsForStrategy_rows [OF False, of stats "strat_id r" nowSec sid w] by auto
  qed
  show ?case
    apply (simp only: foldl_Cons Cons.IH)
    apply (simp only: step)
    apply auto
    done
qed

lemma recomputeAllStrategyStats_ALL:
  assumes "strat \<in> set (strategies d)" and "getSegmentsForStrategy d (strat_id strat) \<noteq> []"
  shows "recomputeAllStrategyStats stats d nowSec (strat_id strat, ''ALL'')
           = Some (statsForWindow (getSegmentsForStrategy d (strat_id strat)) nowSec None)"
proof -
  have "''ALL'' \<in> fst ` set STAT_WINDOWS" and "the (map_of STAT_WINDOWS ''ALL'') = None"
    by (simp_all add: STAT_WINDOWS_def)
  then show ?thesis
    using assms
    unfolding recomputeAllStrategyStats_def
    by (simp add: recomputeAllStrategyStats_rows [of "getSegmentsForStrategy d"])
qed

subsection \<open>A pass keeps the link\<close>

lemma insertSegment_fresh:
  assumes "\<forall>(s, r) \<in> set tbl. s = sid \<longrightarrow> end_ts r < end_ts row"
  shows "insertSegment tbl sid row = tbl @ [(sid, row)]"
proof -
  have "\<not> list_ex (\<lambda>(sid', r). sid' = sid \<and> start_ts r = start_ts row \<and> end_ts r = end_ts row) tbl"
    using assms by (fastforce simp: list_ex_iff)
  then show ?thesis by (simp add: insertSegment_def)
qed

lemma value_index_update:
  assumes "r \<in> set (updateStrategyAfterSegments tbl v t sid)" and "strat_id r = sid"
  shows "last_value_index r = v"
proof -
  obtain r0 where r0: "r0 \<in> set tbl"
    "r = (if strat_id r0 = sid then r0\<lparr>last_value_index := v, last_segment_end_ts := Some t\<rparr> else r0)"
    using assms(1) unfolding updateStrategyAfterSegments_def by (auto simp only: set_map image_iff)
  show ?thesis
  proof (cases "strat_id r0 = sid")
    case True
    then show ?thesis using r0(2) by simp
  next
    case False
    then have "r = r0" using r0(2) by simp
    then show ?thesis using False assms(2) by simp
  qed
qed

lemma others_update:
  "filter (\<lambda>r. strat_id r \<noteq> sid) (updateStrategyAfterSegments tbl v t sid)
     = filter (\<lambda>r. strat_id r \<noteq> sid) tbl"
  by (induction tbl) (simp_all add: updateStrategyAfterSegments_def)

text \<open>An hour that is computed inserts a segment that carries the value index it writes.\<close>

lemma hourStep_run_value:
  assumes "a < b" and "first_signal_ts strat < b"
  shows "\<exists>v row snaps.
           start_ts row = a \<and> end_ts row = b \<and> value_index_end row = v
           \<and> rp_db (hourStep aps strat (a, b) st) =
               (rp_db st)
                 \<lparr>strategies := updateStrategyAfterSegments (strategies (rp_db st)) v b (strat_id strat),
                  strategy_segments := insertSegment (strategy_segments (rp_db st)) (strat_id strat) row,
                  strategy_position_snapshots := snaps\<rparr>"
proof -
  define pre where
    "pre = preSignals a (strat_id strat) (rp_buckets st, rp_meta st) (rp_sigs st)
             (strategy_position_snapshots (rp_db st))"
  obtain bm1 sigs1 snaps1 where pre_eq: "pre = (bm1, sigs1, snaps1)"
    by (cases pre) auto
  show ?thesis
  proof (cases "sumBuckets (fst bm1) \<le> 0")
    case True
    have "rp_db (hourStep aps strat (a, b) st) =
        (rp_db st)
          \<lparr>strategies := updateStrategyAfterSegments (strategies (rp_db st)) (rp_valueIndex st) b
                            (strat_id strat),
           strategy_segments := insertSegment (strategy_segments (rp_db st)) (strat_id strat)
              \<lparr>start_ts = a, end_ts = b, duration_sec = b - a, raw_return = 0,
               hourly_equiv_ret = 0, value_index_end = rp_valueIndex st\<rparr>,
           strategy_position_snapshots := snaps1\<rparr>"
      using assms True pre_eq
      by (simp add: hourStep_def Let_def pre_def [symmetric])
    then show ?thesis
      by (intro exI [of _ "rp_valueIndex st"]
          exI [of _ "\<lparr>start_ts = a, end_ts = b, duration_sec = b - a, raw_return = 0,
               hourly_equiv_ret = 0, value_index_end = rp_valueIndex st\<rparr>"]
          exI [of _ snaps1]) simp
  next
    case False
    define intra where "intra = intraSignals aps b (strat_id strat) a bm1 sigs1 snaps1"
    obtain cursorTs bm2 sigs2 snaps2 where intra_eq: "intra = (cursorTs, bm2, sigs2, snaps2)"
      by (cases intra) auto
    define rr where
      "rr = sumBuckets (drift aps (snd bm2) cursorTs b (fst bm2)) / sumBuckets (fst bm1) - 1"
    have "rp_db (hourStep aps strat (a, b) st) =
        (rp_db st)
          \<lparr>strategies := updateStrategyAfterSegments (strategies (rp_db st))
                            (rp_valueIndex st * (1 + rr)) b (strat_id strat),
           strategy_segments := insertSegment (strategy_segments (rp_db st)) (strat_id strat)
              \<lparr>start_ts = a, end_ts = b, duration_sec = b - a, raw_return = rr,
               hourly_equiv_ret = (if real_of_int (b - a) / 3600 > 0
                                    then rr / (real_of_int (b - a) / 3600) else 0),
               value_index_end = rp_valueIndex st * (1 + rr)\<rparr>,
           strategy_position_snapshots := snaps2\<rparr>"
      using assms False pre_eq intra_eq
      by (simp add: hourStep_def Let_def pre_def [symmetric] intra_def [symmetric] rr_def)
    then show ?thesis
      by (intro exI [of _ "rp_valueIndex st * (1 + rr)"]
          exI [of _ "\<lparr>start_ts = a, end_ts = b, duration_sec = b - a, raw_return = rr,
               hourly_equiv_ret = (if real_of_int (b - a) / 3600 > 0
                                    then rr / (real_of_int (b - a) / 3600) else 0),
               value_index_end = rp_valueIndex st * (1 + rr)\<rparr>"]
          exI [of _ snaps2]) simp
  qed
qed

lemma hourStep_others:
  "filter (\<lambda>r. strat_id r \<noteq> strat_id strat) (strategies (rp_db (hourStep aps strat p st)))
     = filter (\<lambda>r. strat_id r \<noteq> strat_id strat) (strategies (rp_db st))"
proof -
  obtain a b where p: "p = (a, b)" by (cases p)
  show ?thesis
  proof (cases "a < b \<and> first_signal_ts strat < b")
    case False
    then have "hourStep aps strat (a, b) st = st"
      by (intro hourStep_skip) auto
    then show ?thesis by (simp add: p)
  next
    case True
    then obtain v row snaps where
      "rp_db (hourStep aps strat (a, b) st) =
               (rp_db st)
                 \<lparr>strategies := updateStrategyAfterSegments (strategies (rp_db st)) v b (strat_id strat),
                  strategy_segments := insertSegment (strategy_segments (rp_db st)) (strat_id strat) row,
                  strategy_position_snapshots := snaps\<rparr>"
      using hourStep_run_value [of a b strat aps st] by blast
    then show ?thesis by (simp add: p others_update)
  qed
qed

lemma foldl_hourStep_others:
  "filter (\<lambda>r. strat_id r \<noteq> strat_id strat)
      (strategies (rp_db (foldl (\<lambda>st p. hourStep aps strat p st) st ps)))
     = filter (\<lambda>r. strat_id r \<noteq> strat_id strat) (strategies (rp_db st))"
  by (induction ps arbitrary: st) (simp_all add: hourStep_others)

text \<open>A pass that does not return at once, with the state from which its replay starts.\<close>

lemma extendSegmentsForStrategy_run:
  "extendSegmentsForStrategy d strat grid aps = d
   \<or> (\<exists>k0 st0 H.
        grid \<noteq> [] \<and> first_signal_ts strat < last grid
        \<and> startIndex strat grid = Some k0 \<and> k0 < length grid - 1
        \<and> rp_db st0 = d
        \<and> rp_sigs st0 =
            (case last_segment_end_ts strat of
               None \<Rightarrow> getSignalsForStrategy d (trader_address strat) (strategy_name strat)
             | Some w \<Rightarrow>
                 snd (fastForward w (snd (loadHoldings (strategy_holdings d) (strat_id strat)))
                        (getSignalsForStrategy d (trader_address strat) (strategy_name strat))))
        \<and> (last_segment_end_ts strat \<noteq> None \<longrightarrow>
              rp_buckets st0 = fst (loadHoldings (strategy_holdings d) (strat_id strat)))
        \<and> extendSegmentsForStrategy d strat grid aps =
            (rp_db (foldl (\<lambda>st p. hourStep aps strat p st) st0 (drop k0 (zip grid (tl grid)))))
              \<lparr>strategy_holdings := H\<rparr>)"
proof (cases "extendSegmentsForStrategy d strat grid aps = d")
  case True
  then show ?thesis by simp
next
  case False
  define sigs where "sigs = getSignalsForStrategy d (trader_address strat) (strategy_name strat)"
  have s: "length sigs \<noteq> 0"
    using False by (auto simp: extendSegmentsForStrategy_def Let_def sigs_def)
  have m: "\<not> (grid \<noteq> [] \<and> last grid \<le> first_signal_ts strat)"
    using False s by (auto simp: extendSegmentsForStrategy_def Let_def sigs_def)
  obtain k0 where k0: "startIndex strat grid = Some k0"
    using False s m
    by (cases "startIndex strat grid") (auto simp: extendSegmentsForStrategy_def Let_def sigs_def)
  have k: "k0 < length grid - 1"
  proof (rule ccontr)
    assume "\<not> k0 < length grid - 1"
    then have "extendSegmentsForStrategy d strat grid aps = d"
      using k0 by (simp add: extendSegmentsForStrategy_def Let_def)
    then show False using False by simp
  qed
  then have g: "grid \<noteq> []" by auto
  then have first: "first_signal_ts strat < last grid" using m by simp
  define valueIndex where
    "valueIndex = (if last_value_index strat = 0 then 1 else last_value_index strat)"
  define bm0 where
    "bm0 = (case last_segment_end_ts strat of
              None \<Rightarrow> ([(''USD'', 1)], [(''USD'', cashMeta)])
            | Some lastSegEnd \<Rightarrow> loadHoldings (strategy_holdings d) (strat_id strat))"
  define ms where
    "ms = (case last_segment_end_ts strat of
             None \<Rightarrow> (snd bm0, sigs)
           | Some lastSegEnd \<Rightarrow> fastForward lastSegEnd (snd bm0) sigs)"
  define st0 where
    "st0 = \<lparr>rp_buckets = fst bm0, rp_meta = fst ms, rp_sigs = snd ms,
            rp_valueIndex = valueIndex, rp_db = d\<rparr>"
  define st where
    "st = foldl (\<lambda>st p. hourStep aps strat p st) st0 (drop k0 (zip grid (tl grid)))"
  have res: "extendSegmentsForStrategy d strat grid aps =
      (rp_db st)\<lparr>strategy_holdings :=
                   persistHoldings (strategy_holdings (rp_db st)) (strat_id strat)
                     (rp_buckets st) (rp_meta st)\<rparr>"
    using s first g k0 k
    by (simp add: extendSegmentsForStrategy_def Let_def sigs_def [symmetric] split_beta
        valueIndex_def [symmetric] bm0_def [symmetric] ms_def [symmetric] st0_def [symmetric]
        st_def [symmetric])
  have "rp_db st0 = d" by (simp add: st0_def)
  moreover have "rp_sigs st0 =
      (case last_segment_end_ts strat of
         None \<Rightarrow> sigs
       | Some w \<Rightarrow> snd (fastForward w (snd (loadHoldings (strategy_holdings d) (strat_id strat))) sigs))"
    by (simp add: st0_def ms_def bm0_def split: option.splits)
  moreover have "last_segment_end_ts strat \<noteq> None \<longrightarrow>
      rp_buckets st0 = fst (loadHoldings (strategy_holdings d) (strat_id strat))"
    by (auto simp: st0_def bm0_def)
  ultimately show ?thesis
    using g first k0 k res unfolding st_def sigs_def by blast
qed

lemma grid_pairs_before_last:
  assumes "sorted grid" and "distinct grid"
    and "(a, b) \<in> set (butlast (drop k (zip grid (tl grid))))"
  shows "b < last grid"
proof -
  define ps where "ps = drop k (zip grid (tl grid))"
  obtain j where j: "j < length (butlast ps)" "butlast ps ! j = (a, b)"
    using assms(3) unfolding ps_def by (auto simp: in_set_conv_nth)
  have lt: "j < length ps - 1" using j(1) by simp
  then have pj: "ps ! j = (a, b)" using j by (simp add: nth_butlast)
  have len: "length ps = length grid - 1 - k" by (simp add: ps_def)
  have kj: "Suc (k + j) < length grid - 1" using lt len by linarith
  have "ps ! j = zip grid (tl grid) ! (k + j)"
    using kj by (simp add: ps_def)
  also have "\<dots> = (grid ! (k + j), grid ! Suc (k + j))"
    using kj by (simp add: nth_tl)
  finally have b: "b = grid ! Suc (k + j)" using pj by simp
  have "butlast grid ! Suc (k + j) = grid ! Suc (k + j)"
    using kj by (simp add: nth_butlast)
  moreover have "butlast grid ! Suc (k + j) \<in> set (butlast grid)"
    using kj by (intro nth_mem) simp
  ultimately have "grid ! Suc (k + j) \<in> set (butlast grid)" by simp
  then show ?thesis
    using butlast_less_last [OF assms(1,2)] b by simp
qed

lemma extendSegmentsForStrategy_linked:
  assumes "sorted grid" and "distinct grid" and "segmentsLinked d strat"
    and "extendSegmentsForStrategy d strat grid aps \<noteq> d"
    and "r' \<in> set (strategies (extendSegmentsForStrategy d strat grid aps))"
    and "strat_id r' = strat_id strat"
  shows "segmentsLinked (extendSegmentsForStrategy d strat grid aps) r'"
proof -
  define d' where "d' = extendSegmentsForStrategy d strat grid aps"
  obtain k0 st0 H where run: "grid \<noteq> []" "first_signal_ts strat < last grid"
      "startIndex strat grid = Some k0" "k0 < length grid - 1" "rp_db st0 = d"
      "d' = (rp_db (foldl (\<lambda>st p. hourStep aps strat p st) st0 (drop k0 (zip grid (tl grid)))))
              \<lparr>strategy_holdings := H\<rparr>"
    using extendSegmentsForStrategy_run [of d strat grid aps] assms(4) unfolding d'_def by blast
  define ps where "ps = drop k0 (zip grid (tl grid))"
  define a where "a = last (butlast grid)"
  define b where "b = last grid"
  have ne: "ps \<noteq> []" and la: "last ps = (a, b)"
    using grid_pairs_last [OF run(4)] by (simp_all add: ps_def a_def b_def)
  have bl: "butlast grid \<noteq> []"
  proof
    assume "butlast grid = []"
    then have "length (butlast grid) = 0" by (simp only: list.size)
    moreover have "length (butlast grid) = length grid - 1" by simp
    ultimately show False using run(4) by linarith
  qed
  then have "a \<in> set (butlast grid)" by (simp add: a_def)
  then have lt: "a < b"
    using butlast_less_last [OF assms(1,2)] by (simp add: b_def)
  have first: "first_signal_ts strat < b" using run(2) by (simp add: b_def)
  define st1 where "st1 = foldl (\<lambda>st p. hourStep aps strat p st) st0 (butlast ps)"
  have "ps = butlast ps @ [(a, b)]"
    using ne la by (metis append_butlast_last_id)
  then have fold: "foldl (\<lambda>st p. hourStep aps strat p st) st0 ps = hourStep aps strat (a, b) st1"
    by (metis foldl_append foldl_Cons foldl_Nil st1_def)
  have "replayed strat (butlast ps) d (rp_db st1)"
    using foldl_hourStep_replayed [of strat "butlast ps" st0 aps] run(5) by (simp add: st1_def)
  then obtain new where new: "strategy_segments (rp_db st1) = strategy_segments d @ new"
    "\<forall>(sid, r) \<in> set new. sid = strat_id strat \<and> (start_ts r, end_ts r) \<in> set (butlast ps)
        \<and> start_ts r < end_ts r"
    unfolding replayed_def by blast
  have old: "end_ts r < b" if "(s, r) \<in> set (strategy_segments d)" and "s = strat_id strat" for s r
  proof (cases "last_segment_end_ts strat")
    case None
    then show ?thesis using assms(3) that by (auto simp: segmentsLinked_def)
  next
    case (Some w)
    then have "end_ts r \<le> w"
      using assms(3) that by (fastforce simp: segmentsLinked_def)
    moreover have "findIndex (\<lambda>t. t \<ge> w) (butlast grid) = Some k0"
      using run(3) Some by (simp add: startIndex_def)
    then have k: "k0 < length (butlast grid)" "w \<le> butlast grid ! k0"
      using findIndex_Some_P [of "\<lambda>t. t \<ge> w" "butlast grid" k0] by simp_all
    moreover have "butlast grid ! k0 \<in> set (butlast grid)"
      using k(1) by (rule nth_mem)
    then have "butlast grid ! k0 < b"
      using butlast_less_last [OF assms(1,2)] by (simp add: b_def)
    ultimately show ?thesis by linarith
  qed
  have newb: "end_ts r < b" if "(s, r) \<in> set new" for s r
  proof -
    have "(start_ts r, end_ts r) \<in> set (butlast (drop k0 (zip grid (tl grid))))"
      using new(2) that by (auto simp: ps_def)
    then show ?thesis
      using grid_pairs_before_last [OF assms(1,2)] by (simp add: b_def)
  qed
  have all1: "\<forall>(s, r) \<in> set (strategy_segments (rp_db st1)). s = strat_id strat \<longrightarrow> end_ts r < b"
    using old newb new(1) by auto
  obtain v row snaps where hs: "start_ts row = a" "end_ts row = b" "value_index_end row = v"
    "rp_db (hourStep aps strat (a, b) st1) =
       (rp_db st1)
         \<lparr>strategies := updateStrategyAfterSegments (strategies (rp_db st1)) v b (strat_id strat),
          strategy_segments := insertSegment (strategy_segments (rp_db st1)) (strat_id strat) row,
          strategy_position_snapshots := snaps\<rparr>"
    using hourStep_run_value [OF lt first, of aps st1] by blast
  have ins: "insertSegment (strategy_segments (rp_db st1)) (strat_id strat) row
      = strategy_segments (rp_db st1) @ [(strat_id strat, row)]"
    using all1 hs(2) by (intro insertSegment_fresh) simp
  have segs': "strategy_segments d' = strategy_segments (rp_db st1) @ [(strat_id strat, row)]"
    using run(6) fold hs(4) ins by (simp add: ps_def)
  have strats': "strategies d'
      = updateStrategyAfterSegments (strategies (rp_db st1)) v b (strat_id strat)"
    using run(6) fold hs(4) by (simp add: ps_def)
  have mem: "r' \<in> set (updateStrategyAfterSegments (strategies (rp_db st1)) v b (strat_id strat))"
    using assms(5) strats' by (simp add: d'_def)
  have wm: "last_segment_end_ts r' = Some b"
    using mem assms(6) by (rule watermark_update)
  have vi: "last_value_index r' = v"
    using mem assms(6) by (rule value_index_update)
  have in': "(strat_id strat, row) \<in> set (strategy_segments d')"
    using segs' by simp
  have rest: "\<forall>(s', x) \<in> set (strategy_segments d').
      s' = strat_id strat \<longrightarrow> x \<noteq> row \<longrightarrow> end_ts x < b"
    using segs' all1 by auto
  have "\<exists>(s, r) \<in> set (strategy_segments d').
             s = strat_id r' \<and> end_ts r = b \<and> value_index_end r = last_value_index r'
             \<and> (\<forall>(s', x) \<in> set (strategy_segments d').
                   s' = strat_id r' \<longrightarrow> x \<noteq> r \<longrightarrow> end_ts x < b)"
    using in' rest hs(2,3) vi assms(6) by (intro bexI [of _ "(strat_id strat, row)"]) simp_all
  then show ?thesis
    unfolding d'_def [symmetric] segmentsLinked_def wm by simp
qed

lemma extendSegmentsForStrategy_others:
  shows "filter (\<lambda>r. strat_id r \<noteq> strat_id strat)
           (strategies (extendSegmentsForStrategy d strat grid aps))
         = filter (\<lambda>r. strat_id r \<noteq> strat_id strat) (strategies d)"
    and "\<exists>new. strategy_segments (extendSegmentsForStrategy d strat grid aps)
                  = strategy_segments d @ new
              \<and> (\<forall>(s, r) \<in> set new. s = strat_id strat)"
    and "map strat_id (strategies (extendSegmentsForStrategy d strat grid aps))
           = map strat_id (strategies d)"
proof -
  define d' where "d' = extendSegmentsForStrategy d strat grid aps"
  consider "d' = d"
    | k0 st0 H where "rp_db st0 = d"
      "d' = (rp_db (foldl (\<lambda>st p. hourStep aps strat p st) st0 (drop k0 (zip grid (tl grid)))))
              \<lparr>strategy_holdings := H\<rparr>"
    using extendSegmentsForStrategy_run [of d strat grid aps] unfolding d'_def by blast
  then have "filter (\<lambda>r. strat_id r \<noteq> strat_id strat) (strategies d')
         = filter (\<lambda>r. strat_id r \<noteq> strat_id strat) (strategies d)
       \<and> (\<exists>new. strategy_segments d' = strategy_segments d @ new
              \<and> (\<forall>(s, r) \<in> set new. s = strat_id strat))
       \<and> map strat_id (strategies d') = map strat_id (strategies d)"
  proof cases
    case 1
    have "\<exists>new. strategy_segments d = strategy_segments d @ new
              \<and> (\<forall>(s, r) \<in> set new. s = strat_id strat)"
      by (intro exI [of _ "[]"]) simp
    then show ?thesis using 1 by simp
  next
    case 2
    define ps where "ps = drop k0 (zip grid (tl grid))"
    define d2 where "d2 = rp_db (foldl (\<lambda>st p. hourStep aps strat p st) st0 ps)"
    have eq: "strategies d' = strategies d2" "strategy_segments d' = strategy_segments d2"
      using 2(2) by (simp_all add: d2_def ps_def)
    have f: "filter (\<lambda>r. strat_id r \<noteq> strat_id strat) (strategies d2)
         = filter (\<lambda>r. strat_id r \<noteq> strat_id strat) (strategies d)"
      using foldl_hourStep_others [of strat aps st0 ps] 2(1) by (simp add: d2_def)
    have rep: "replayed strat ps d d2"
      using foldl_hourStep_replayed [of strat ps st0 aps] 2(1) by (simp add: d2_def)
    then obtain new where new: "strategy_segments d2 = strategy_segments d @ new"
      "\<forall>(sid, r) \<in> set new. sid = strat_id strat \<and> (start_ts r, end_ts r) \<in> set ps
          \<and> start_ts r < end_ts r"
      unfolding replayed_def by blast
    have "\<forall>(s, r) \<in> set new. s = strat_id strat"
      using new(2) by auto
    then have "\<exists>new. strategy_segments d' = strategy_segments d @ new
              \<and> (\<forall>(s, r) \<in> set new. s = strat_id strat)"
      using new(1) eq(2) by (intro exI [of _ new]) simp
    then show ?thesis
      using f eq(1) replayed_ids [OF rep] by simp
  qed
  then show "filter (\<lambda>r. strat_id r \<noteq> strat_id strat)
           (strategies (extendSegmentsForStrategy d strat grid aps))
         = filter (\<lambda>r. strat_id r \<noteq> strat_id strat) (strategies d)"
    and "\<exists>new. strategy_segments (extendSegmentsForStrategy d strat grid aps)
                  = strategy_segments d @ new
              \<and> (\<forall>(s, r) \<in> set new. s = strat_id strat)"
    and "map strat_id (strategies (extendSegmentsForStrategy d strat grid aps))
           = map strat_id (strategies d)"
    unfolding d'_def by simp_all
qed

lemma segmentsLinked_other:
  assumes "strategy_segments d' = strategy_segments d @ new"
    and "\<forall>(s, r) \<in> set new. s = sid" and "strat_id x \<noteq> sid"
  shows "segmentsLinked d' x \<longleftrightarrow> segmentsLinked d x"
proof -
  have "{(s, r). (s, r) \<in> set (strategy_segments d') \<and> s = strat_id x}
      = {(s, r). (s, r) \<in> set (strategy_segments d) \<and> s = strat_id x}"
    using assms by auto
  then have mem: "(strat_id x, r) \<in> set (strategy_segments d')
      \<longleftrightarrow> (strat_id x, r) \<in> set (strategy_segments d)" for r
    by blast
  show ?thesis
  proof (cases "last_segment_end_ts x")
    case None
    have "(\<forall>(s, r) \<in> set (strategy_segments d'). s \<noteq> strat_id x)
        \<longleftrightarrow> (\<forall>r. (strat_id x, r) \<notin> set (strategy_segments d'))"
      by auto
    also have "\<dots> \<longleftrightarrow> (\<forall>r. (strat_id x, r) \<notin> set (strategy_segments d))"
      by (simp add: mem)
    also have "\<dots> \<longleftrightarrow> (\<forall>(s, r) \<in> set (strategy_segments d). s \<noteq> strat_id x)"
      by auto
    finally show ?thesis using None by (simp add: segmentsLinked_def)
  next
    case (Some w)
    have conv: "(\<exists>(s, r) \<in> set (strategy_segments e).
             s = strat_id x \<and> end_ts r = w \<and> value_index_end r = last_value_index x
             \<and> (\<forall>(s', r') \<in> set (strategy_segments e).
                   s' = strat_id x \<longrightarrow> r' \<noteq> r \<longrightarrow> end_ts r' < w))
        \<longleftrightarrow> (\<exists>r. (strat_id x, r) \<in> set (strategy_segments e)
               \<and> end_ts r = w \<and> value_index_end r = last_value_index x
               \<and> (\<forall>r'. (strat_id x, r') \<in> set (strategy_segments e) \<longrightarrow> r' \<noteq> r \<longrightarrow> end_ts r' < w))"
      for e
      by (rule iffI) (fastforce, fastforce)
    show ?thesis
      using Some by (simp add: segmentsLinked_def conv mem)
  qed
qed

lemma dbLinked_extendSegmentsForStrategy:
  assumes "sorted grid" and "distinct grid" and "dbLinked d" and "strat \<in> set (strategies d)"
  shows "dbLinked (extendSegmentsForStrategy d strat grid aps)"
    and "\<forall>r \<in> set (strategies d). strat_id r \<noteq> strat_id strat \<longrightarrow>
           r \<in> set (strategies (extendSegmentsForStrategy d strat grid aps))"
proof -
  define d' where "d' = extendSegmentsForStrategy d strat grid aps"
  have f: "filter (\<lambda>r. strat_id r \<noteq> strat_id strat) (strategies d')
         = filter (\<lambda>r. strat_id r \<noteq> strat_id strat) (strategies d)"
    and ids: "map strat_id (strategies d') = map strat_id (strategies d)"
    using extendSegmentsForStrategy_others(1,3) [where d = d and strat = strat and grid = grid and aps = aps]
    by (simp_all add: d'_def)
  obtain new where new: "strategy_segments d' = strategy_segments d @ new"
      "\<forall>(s, r) \<in> set new. s = strat_id strat"
    using extendSegmentsForStrategy_others(2) [where d = d and strat = strat and grid = grid and aps = aps]
    unfolding d'_def by blast
  have setf: "set (filter (\<lambda>r. strat_id r \<noteq> strat_id strat) (strategies d'))
      = set (filter (\<lambda>r. strat_id r \<noteq> strat_id strat) (strategies d))"
    using f by simp
  have keep: "r \<in> set (strategies d')" if "r \<in> set (strategies d)" "strat_id r \<noteq> strat_id strat" for r
    using setf that by auto
  have orig: "r \<in> set (strategies d)" if "r \<in> set (strategies d')" "strat_id r \<noteq> strat_id strat" for r
    using setf that by auto
  have dist: "distinct (map strat_id (strategies d))" and lk: "\<forall>r \<in> set (strategies d). segmentsLinked d r"
    using assms(3) by (simp_all add: dbLinked_def)
  have "segmentsLinked d' r" if r: "r \<in> set (strategies d')" for r
  proof (cases "strat_id r = strat_id strat")
    case True
    show ?thesis
    proof (cases "d' = d")
      case same: True
      then have "r = strat"
        using distinct_map_eq [OF dist _ assms(4), of r] r True by simp
      then show ?thesis using lk assms(4) same by simp
    next
      case False
      then show ?thesis
        using extendSegmentsForStrategy_linked [OF assms(1,2) _ _ _ True, of d aps] lk assms(4) r
        unfolding d'_def by blast
    qed
  next
    case False
    then have "segmentsLinked d r" using orig [OF r] lk by simp
    then show ?thesis
      using segmentsLinked_other [OF new False] by simp
  qed
  then show "dbLinked (extendSegmentsForStrategy d strat grid aps)"
    using dist ids by (simp add: dbLinked_def d'_def)
  show "\<forall>r \<in> set (strategies d). strat_id r \<noteq> strat_id strat \<longrightarrow>
           r \<in> set (strategies (extendSegmentsForStrategy d strat grid aps))"
    using keep by (simp add: d'_def)
qed

lemma foldl_extendSegmentsForStrategy_linked:
  assumes "sorted grid" and "distinct grid"
    and "dbLinked d" and "set rs \<subseteq> set (strategies d)" and "distinct (map strat_id rs)"
  shows "dbLinked (foldl (\<lambda>d' strat. extendSegmentsForStrategy d' strat grid aps) d rs)"
  using assms(3,4,5)
proof (induction rs arbitrary: d)
  case Nil
  then show ?case by simp
next
  case (Cons r rs)
  have r: "r \<in> set (strategies d)" using Cons.prems(2) by simp
  have l: "dbLinked (extendSegmentsForStrategy d r grid aps)"
    using dbLinked_extendSegmentsForStrategy(1) [OF assms(1,2) Cons.prems(1) r] .
  have "x \<in> set (strategies (extendSegmentsForStrategy d r grid aps))" if "x \<in> set rs" for x
  proof -
    have "strat_id x \<in> strat_id ` set rs" using that by (rule imageI)
    moreover have "strat_id r \<notin> strat_id ` set rs" using Cons.prems(3) by simp
    ultimately have "strat_id x \<noteq> strat_id r" by metis
    moreover have "x \<in> set (strategies d)" using Cons.prems(2) that by auto
    ultimately show ?thesis
      using dbLinked_extendSegmentsForStrategy(2) [OF assms(1,2) Cons.prems(1) r, of aps] by simp
  qed
  then have "set rs \<subseteq> set (strategies (extendSegmentsForStrategy d r grid aps))" by blast
  moreover have "distinct (map strat_id rs)" using Cons.prems(3) by simp
  ultimately show ?case
    using Cons.IH [OF l] by simp
qed

lemma hourlyGrid_sorted_distinct: "sorted (hourlyGrid priceRows) \<and> distinct (hourlyGrid priceRows)"
  by (simp add: hourlyGrid_def)

lemma dbLinked_extendAllStrategySegments:
  assumes "dbLinked d"
  shows "dbLinked (extendAllStrategySegments d)"
proof -
  have "distinct (map strat_id (strategies d))"
    using assms by (simp add: dbLinked_def)
  then have "dbLinked (foldl (\<lambda>d' strat. extendSegmentsForStrategy d' strat (hourlyGrid rows) aps)
                         d (strategies d))" for rows aps
    using foldl_extendSegmentsForStrategy_linked [of "hourlyGrid rows" d "strategies d" aps]
      hourlyGrid_sorted_distinct [of rows] assms by simp
  then show ?thesis
    using assms by (simp add: extendAllStrategySegments_def Let_def)
qed

lemma dbLinked_initial:
  assumes "strategy_segments d = []" and "distinct (map strat_id (strategies d))"
    and "\<forall>r \<in> set (strategies d). last_segment_end_ts r = None"
  shows "dbLinked d"
  using assms by (simp add: dbLinked_def segmentsLinked_def)

section \<open>Snapshots of the replay\<close>

subsection \<open>What a pass writes into the table of snapshots\<close>















subsection \<open>The snapshots of a pass\<close>




subsection \<open>An example: a leveraged strategy that loses its equity\<close>

text \<open>
  A strategy goes long BTC with leverage 5 at time 100 and sends a signal for ETH at time
  8000. The price of BTC falls from 100 to 70 between 3600 and 7200, which takes the equity
  of the strategy to zero.
\<close>

definition exLevStrat :: StrategyRow where
  "exLevStrat =
     \<lparr>strat_id = 2, trader_address = ''0xb'', strategy_name = ''s2'', first_signal_ts = 100,
      last_signal_ts = 8000, last_value_index = 1, last_segment_end_ts = None\<rparr>"

definition exLevDb :: db where
  "exLevDb =
     \<lparr>signals = [(''0xb'', ''s2'',
                   \<lparr>asset_symbol = ''BTC'', sig_direction = 0, sig_leverage = 5, weight_raw = 100,
                    timestamp = 100\<rparr>),
                  (''0xb'', ''s2'',
                   \<lparr>asset_symbol = ''ETH'', sig_direction = 0, sig_leverage = 1, weight_raw = 100,
                    timestamp = 8000\<rparr>)],
      strategies = [exLevStrat],
      prices = [\<lparr>p_asset_symbol = ''BTC'', p_timestamp = 0, price_usd = 100\<rparr>,
                \<lparr>p_asset_symbol = ''BTC'', p_timestamp = 3600, price_usd = 100\<rparr>,
                \<lparr>p_asset_symbol = ''BTC'', p_timestamp = 7200, price_usd = 70\<rparr>],
      strategy_segments = [], strategy_holdings = [],
      strategy_position_snapshots = Map.empty\<rparr>"


text \<open>
  The tables of the example after the hours that end at 3600 and 7200: the value index is 0
  and no holding is left.
\<close>

definition exZeroStrat :: StrategyRow where
  "exZeroStrat = exLevStrat\<lparr>last_value_index := 0, last_segment_end_ts := Some 7200\<rparr>"


subsection \<open>Snapshots and equity\<close>




section \<open>Base value and total return\<close>

text \<open>
  Claim C7 as stated fails when the final value index is not positive: for a strategy whose
  only segment ends with value index 0 the ALL row has total return 0, where
  \<open>finalValueIndex / baseValue - 1\<close> is -1.
\<close>

theorem totalReturn_zero_index_counterexample:
  "baseValueSpec [hourSegment 0 \<lparr>value_index_end := 0\<rparr>] 3600 None = 1
   \<and> finalValueSpec [hourSegment 0 \<lparr>value_index_end := 0\<rparr>] = 0
   \<and> total_return (statsForWindow [hourSegment 0 \<lparr>value_index_end := 0\<rparr>] 3600 None) = 0
   \<and> finalValueSpec [hourSegment 0 \<lparr>value_index_end := 0\<rparr>]
        / baseValueSpec [hourSegment 0 \<lparr>value_index_end := 0\<rparr>] 3600 None - 1 = - 1"
  by (simp add: baseValueSpec_def finalValueSpec_def beforeWindow_def statsForWindow_def
      windowStart_def windowBaseValue_def windowFinalValue_def neutralStats_def hourSegment_def)

text \<open>An example with prices in the table: the strategy of \<open>exDb\<close> and one hour of BTC.\<close>

definition exPricedDb :: db where
  "exPricedDb =
     exDb\<lparr>prices := [\<lparr>p_asset_symbol = ''BTC'', p_timestamp = 3600, price_usd = 100\<rparr>,
                      \<lparr>p_asset_symbol = ''BTC'', p_timestamp = 7200, price_usd = 110\<rparr>]\<rparr>"

text \<open>
  Claim C7, amended. For a window with at least one qualifying segment, the base value the
  program uses is the \<open>valueIndexEnd\<close> of the segment just before the window slice, or 1 when
  the slice starts at the first segment, and the final value is the \<open>valueIndexEnd\<close> of the
  last segment. When the base value and the final value index are both positive,
  \<open>totalReturn = finalValueIndex / baseValue - 1\<close>; otherwise the row is the neutral one, with
  \<open>totalReturn = 0\<close>. For the ALL window the base is 1.

  The value index \<open>last_value_index\<close> of the row of a strategy is the \<open>valueIndexEnd\<close> of the
  last of its segments: this link holds in tables without segments and watermarks, and every
  pass of \<open>extendAllStrategySegments\<close> keeps it. So the ALL row that
  \<open>recomputeAllStrategyStats\<close> writes for a strategy with segments has
  \<open>totalReturn = lastValueIndex / 1 - 1\<close> when the last value index is positive, and is the
  neutral row when it is not.
\<close>

theorem totalReturn_from_base_value:
  "(windowSlice segments nowSec seconds \<noteq> [] \<longrightarrow>
      (\<forall>i0. windowStart segments nowSec seconds = Some i0 \<longrightarrow>
            windowBaseValue segments i0 = baseValueSpec segments nowSec seconds
            \<and> windowFinalValue segments = finalValueSpec segments)
      \<and> (0 < baseValueSpec segments nowSec seconds \<and> 0 < finalValueSpec segments \<longrightarrow>
            total_return (statsForWindow segments nowSec seconds)
              = finalValueSpec segments / baseValueSpec segments nowSec seconds - 1)
      \<and> (baseValueSpec segments nowSec seconds \<le> 0 \<or> finalValueSpec segments \<le> 0 \<longrightarrow>
            statsForWindow segments nowSec seconds =
              \<lparr>last_updated_ts = nowSec, sharpe_annual = None, vol_annual = None,
               vol_hourly = None, total_return = 0, max_drawdown = 0\<rparr>)
      \<and> (seconds = None \<longrightarrow> baseValueSpec segments nowSec seconds = 1))
   \<and> (strategy_segments d0 = [] \<and> distinct (map strat_id (strategies d0))
        \<and> (\<forall>r \<in> set (strategies d0). last_segment_end_ts r = None) \<longrightarrow> dbLinked d0)
   \<and> (dbLinked d \<longrightarrow> dbLinked (extendAllStrategySegments d))
   \<and> (dbLinked d \<and> strat \<in> set (strategies d)
        \<and> getSegmentsForStrategy d (strat_id strat) \<noteq> [] \<longrightarrow>
          finalValueSpec (getSegmentsForStrategy d (strat_id strat)) = last_value_index strat
          \<and> (0 < last_value_index strat \<longrightarrow>
                (\<exists>row. recomputeAllStrategyStats stats d nowSec (strat_id strat, ''ALL'') = Some row
                      \<and> total_return row = last_value_index strat / 1 - 1))
          \<and> (last_value_index strat \<le> 0 \<longrightarrow>
                recomputeAllStrategyStats stats d nowSec (strat_id strat, ''ALL'') =
                  Some \<lparr>last_updated_ts = nowSec, sharpe_annual = None, vol_annual = None,
                        vol_hourly = None, total_return = 0, max_drawdown = 0\<rparr>))"
proof (intro conjI impI)
  assume slice: "windowSlice segments nowSec seconds \<noteq> []"
  obtain i0 where ne: "segments \<noteq> []" and i0: "windowStart segments nowSec seconds = Some i0"
    using windowSlice_nonempty [OF slice] by blast
  have base: "windowBaseValue segments i0 = baseValueSpec segments nowSec seconds"
    using windowBaseValue_before [OF i0] by (simp add: baseValueSpec_def)
  have fin: "windowFinalValue segments = finalValueSpec segments"
    using ne by (simp add: windowFinalValue_last finalValueSpec_def)
  show "\<forall>i0. windowStart segments nowSec seconds = Some i0 \<longrightarrow>
            windowBaseValue segments i0 = baseValueSpec segments nowSec seconds
            \<and> windowFinalValue segments = finalValueSpec segments"
    using i0 base fin by simp
  show "total_return (statsForWindow segments nowSec seconds)
          = finalValueSpec segments / baseValueSpec segments nowSec seconds - 1"
    if "0 < baseValueSpec segments nowSec seconds \<and> 0 < finalValueSpec segments"
    using that statsForWindow_positive(1) [OF i0] base fin by simp
  show "statsForWindow segments nowSec seconds =
          \<lparr>last_updated_ts = nowSec, sharpe_annual = None, vol_annual = None,
           vol_hourly = None, total_return = 0, max_drawdown = 0\<rparr>"
    if "baseValueSpec segments nowSec seconds \<le> 0 \<or> finalValueSpec segments \<le> 0"
    using statsForWindow_neutral [OF slice that] by (simp add: neutralStats_def)
  show "baseValueSpec segments nowSec seconds = 1" if "seconds = None"
    using that by (simp add: baseValueSpec_def beforeWindow_def)
next
  assume "strategy_segments d0 = [] \<and> distinct (map strat_id (strategies d0))
        \<and> (\<forall>r \<in> set (strategies d0). last_segment_end_ts r = None)"
  then show "dbLinked d0"
    using dbLinked_initial by blast
next
  assume "dbLinked d"
  then show "dbLinked (extendAllStrategySegments d)"
    by (rule dbLinked_extendAllStrategySegments)
next
  assume h: "dbLinked d \<and> strat \<in> set (strategies d)
        \<and> getSegmentsForStrategy d (strat_id strat) \<noteq> []"
  define segs where "segs = getSegmentsForStrategy d (strat_id strat)"
  have ne: "segs \<noteq> []" using h by (simp add: segs_def)
  have "segmentsLinked d strat" using h by (simp add: dbLinked_def)
  then have fin: "finalValueSpec segs = last_value_index strat"
    unfolding segs_def using h by (intro segmentsLinked_final) simp_all
  show "finalValueSpec (getSegmentsForStrategy d (strat_id strat)) = last_value_index strat"
    using fin by (simp add: segs_def)
  have row: "recomputeAllStrategyStats stats d nowSec (strat_id strat, ''ALL'')
      = Some (statsForWindow segs nowSec None)"
    unfolding segs_def using h by (intro recomputeAllStrategyStats_ALL) simp_all
  have slice: "windowSlice segs nowSec None \<noteq> []"
    using ne by (simp add: windowSlice_def)
  have base: "baseValueSpec segs nowSec None = 1"
    by (simp add: baseValueSpec_def beforeWindow_def)
  have i0: "windowStart segs nowSec None = Some 0"
    by (simp add: windowStart_def)
  have bv: "windowBaseValue segs 0 = 1"
    by (simp add: windowBaseValue_def)
  have fv: "windowFinalValue segs = last_value_index strat"
    using ne fin by (simp add: windowFinalValue_last finalValueSpec_def)
  show "\<exists>row. recomputeAllStrategyStats stats d nowSec (strat_id strat, ''ALL'') = Some row
              \<and> total_return row = last_value_index strat / 1 - 1"
    if "0 < last_value_index strat"
  proof -
    have "total_return (statsForWindow segs nowSec None) = last_value_index strat / 1 - 1"
      using statsForWindow_positive(1) [OF i0] bv fv that by simp
    then show ?thesis using row by simp
  qed
  show "recomputeAllStrategyStats stats d nowSec (strat_id strat, ''ALL'') =
          Some \<lparr>last_updated_ts = nowSec, sharpe_annual = None, vol_annual = None,
                vol_hourly = None, total_return = 0, max_drawdown = 0\<rparr>"
    if "last_value_index strat \<le> 0"
  proof -
    have "baseValueSpec segs nowSec None \<le> 0 \<or> finalValueSpec segs \<le> 0"
      using that fin by simp
    then have "statsForWindow segs nowSec None = neutralStats nowSec"
      using statsForWindow_neutral [OF slice] by blast
    then show ?thesis using row by (simp add: neutralStats_def)
  qed
qed

theorem totalReturn_from_base_value_witness:
  "windowSlice [hourSegment 0, hourSegment 0 \<lparr>end_ts := 7200, value_index_end := 3\<rparr>]
      612000 (Some (7 * 24 * 3600)) \<noteq> []
   \<and> baseValueSpec [hourSegment 0, hourSegment 0 \<lparr>end_ts := 7200, value_index_end := 3\<rparr>]
        612000 (Some (7 * 24 * 3600)) = 2
   \<and> total_return (statsForWindow
        [hourSegment 0, hourSegment 0 \<lparr>end_ts := 7200, value_index_end := 3\<rparr>]
        612000 (Some (7 * 24 * 3600))) = 1 / 2
   \<and> windowSlice [hourSegment 0 \<lparr>value_index_end := 0\<rparr>] 3600 None \<noteq> []
   \<and> finalValueSpec [hourSegment 0 \<lparr>value_index_end := 0\<rparr>] \<le> 0
   \<and> statsForWindow [hourSegment 0 \<lparr>value_index_end := 0\<rparr>] 3600 None =
        \<lparr>last_updated_ts = 3600, sharpe_annual = None, vol_annual = None,
         vol_hourly = None, total_return = 0, max_drawdown = 0\<rparr>
   \<and> baseValueSpec [hourSegment 0 \<lparr>value_index_end := 0\<rparr>] 3600 None = 1
   \<and> dbLinked exPricedDb \<and> dbLinked (extendAllStrategySegments exPricedDb)
   \<and> strategies (extendAllStrategySegments exPricedDb)
       = [exStrat\<lparr>last_value_index := 6 / 5, last_segment_end_ts := Some 7200\<rparr>]
   \<and> getSegmentsForStrategy (extendAllStrategySegments exPricedDb) 1 \<noteq> []
   \<and> (\<exists>row. recomputeAllStrategyStats Map.empty (extendAllStrategySegments exPricedDb) 612000
                 (1, ''ALL'') = Some row
             \<and> total_return row = 1 / 5)
   \<and> dbLinked exLevDb \<and> dbLinked (extendAllStrategySegments exLevDb)
   \<and> strategies (extendAllStrategySegments exLevDb) = [exZeroStrat]
   \<and> getSegmentsForStrategy (extendAllStrategySegments exLevDb) 2 \<noteq> []
   \<and> recomputeAllStrategyStats Map.empty (extendAllStrategySegments exLevDb) 3600 (2, ''ALL'') =
        Some \<lparr>last_updated_ts = 3600, sharpe_annual = None, vol_annual = None,
              vol_hourly = None, total_return = 0, max_drawdown = 0\<rparr>"
proof -
  define S where "S = [hourSegment 0, hourSegment 0 \<lparr>end_ts := 7200, value_index_end := 3\<rparr>]"
  define Z where "Z = [hourSegment 0 \<lparr>value_index_end := 0\<rparr>]"
  define row1 where "row1 = exStrat\<lparr>last_value_index := 6 / 5, last_segment_end_ts := Some 7200\<rparr>"
  have s1: "windowSlice S 612000 (Some (7 * 24 * 3600)) \<noteq> []"
    by (simp add: S_def windowSlice_def hourSegment_def)
  have b1: "baseValueSpec S 612000 (Some (7 * 24 * 3600)) = 2"
    by (simp add: S_def baseValueSpec_def beforeWindow_def hourSegment_def)
  have f1: "finalValueSpec S = 3"
    by (simp add: S_def finalValueSpec_def hourSegment_def)
  have i1: "dbLinked exPricedDb"
    using totalReturn_from_base_value [where ?d0.0 = exPricedDb]
    by (simp add: exPricedDb_def exDb_def exStrat_def)
  have t1: "total_return (statsForWindow S 612000 (Some (7 * 24 * 3600))) = 1 / 2"
    using totalReturn_from_base_value
            [where segments = S and nowSec = 612000 and seconds = "Some (7 * 24 * 3600)"] s1 b1 f1
    by simp
  have s2: "windowSlice Z 3600 None \<noteq> []"
    by (simp add: Z_def windowSlice_def)
  have f2: "finalValueSpec Z \<le> 0"
    by (simp add: Z_def finalValueSpec_def hourSegment_def)
  have t2: "statsForWindow Z 3600 None =
        \<lparr>last_updated_ts = 3600, sharpe_annual = None, vol_annual = None,
         vol_hourly = None, total_return = 0, max_drawdown = 0\<rparr>"
    and b2: "baseValueSpec Z 3600 None = 1"
    using totalReturn_from_base_value [where segments = Z and nowSec = 3600 and seconds = None] s2 f2
    by blast+
  have l1: "dbLinked (extendAllStrategySegments exPricedDb)"
    using totalReturn_from_base_value [where d = exPricedDb] i1 by blast
  have r1: "strategies (extendAllStrategySegments exPricedDb) = [row1]"
    unfolding row1_def by code_simp
  have g1: "getSegmentsForStrategy (extendAllStrategySegments exPricedDb) 1 \<noteq> []"
    by code_simp
  have p1: "strat_id row1 = 1" "last_value_index row1 = 6 / 5"
    by (simp_all add: row1_def exStrat_def)
  have "row1 \<in> set (strategies (extendAllStrategySegments exPricedDb))"
    using r1 by simp
  then have a1: "\<exists>row. recomputeAllStrategyStats Map.empty (extendAllStrategySegments exPricedDb)
                 612000 (1, ''ALL'') = Some row
             \<and> total_return row = 1 / 5"
    using totalReturn_from_base_value
            [where d = "extendAllStrategySegments exPricedDb" and strat = row1
               and stats = Map.empty and nowSec = 612000] l1 g1 p1
    by simp
  have i2: "dbLinked exLevDb"
    using totalReturn_from_base_value [where ?d0.0 = exLevDb]
    by (simp add: exLevDb_def exLevStrat_def)
  have l2: "dbLinked (extendAllStrategySegments exLevDb)"
    using totalReturn_from_base_value [where d = exLevDb] i2 by blast
  have r2: "strategies (extendAllStrategySegments exLevDb) = [exZeroStrat]"
    by code_simp
  have g2: "getSegmentsForStrategy (extendAllStrategySegments exLevDb) 2 \<noteq> []"
    by code_simp
  have p2: "strat_id exZeroStrat = 2" "last_value_index exZeroStrat \<le> 0"
    by (simp_all add: exZeroStrat_def exLevStrat_def)
  have "exZeroStrat \<in> set (strategies (extendAllStrategySegments exLevDb))"
    using r2 by simp
  then have a2: "recomputeAllStrategyStats Map.empty (extendAllStrategySegments exLevDb) 3600
        (2, ''ALL'') =
        Some \<lparr>last_updated_ts = 3600, sharpe_annual = None, vol_annual = None,
              vol_hourly = None, total_return = 0, max_drawdown = 0\<rparr>"
    using totalReturn_from_base_value
            [where d = "extendAllStrategySegments exLevDb" and strat = exZeroStrat
               and stats = Map.empty and nowSec = 3600] l2 g2 p2
    by simp
  show ?thesis
    using s1 b1 t1 s2 f2 t2 b2 i1 l1 r1 g1 a1 i2 l2 r2 g2 a2
    unfolding S_def Z_def row1_def by (intro conjI)
qed

end
